theory Spec2Isabelle
  imports Complex_Main "HOL-Library.Monad_Syntax"
begin

section \<open>Strings\<close>

text \<open>
  A JavaScript string is a sequence of UTF-16 code units; it is modelled as a list of
  natural numbers.  \<open>str\<close> embeds an ASCII literal.  \<open>trim\<close> removes exactly the code
  units that ECMAScript classifies as white space or line terminators.  \<open>toLowerCase\<close>
  and \<open>toUpperUnit\<close> convert the ASCII letters; the only code unit outside ASCII whose
  lower-case form is an ASCII letter (U+212A, the Kelvin sign) is converted as well, every
  other code unit is left as it is.
\<close>

type_synonym jsstring = "nat list"

definition str :: "string \<Rightarrow> jsstring" where
  "str s = map (\<lambda>c. of_char c) s"

definition isWhiteSpace :: "nat \<Rightarrow> bool" where
  "isWhiteSpace u = (u = 9 \<or> u = 10 \<or> u = 11 \<or> u = 12 \<or> u = 13 \<or> u = 32 \<or> u = 160
     \<or> u = 5760 \<or> (8192 \<le> u \<and> u \<le> 8202) \<or> u = 8232 \<or> u = 8233 \<or> u = 8239
     \<or> u = 8287 \<or> u = 12288 \<or> u = 65279)"

definition trim :: "jsstring \<Rightarrow> jsstring" where
  "trim s = rev (dropWhile isWhiteSpace (rev (dropWhile isWhiteSpace s)))"

definition toLowerUnit :: "nat \<Rightarrow> nat" where
  "toLowerUnit u = (if 65 \<le> u \<and> u \<le> 90 then u + 32 else if u = 8490 then 107 else u)"

definition toLowerCase :: "jsstring \<Rightarrow> jsstring" where
  "toLowerCase s = map toLowerUnit s"

definition toUpperUnit :: "nat \<Rightarrow> nat" where
  "toUpperUnit u = (if 97 \<le> u \<and> u \<le> 122 then u - 32 else u)"

text \<open>\<open>String(n)\<close> for a non-negative integer, and \<open>padStart\<close>.\<close>

fun showNat :: "nat \<Rightarrow> jsstring" where
  "showNat n = (if n < 10 then [48 + n] else showNat (n div 10) @ [48 + n mod 10])"

declare showNat.simps [simp del]

definition padStart :: "nat \<Rightarrow> nat \<Rightarrow> jsstring \<Rightarrow> jsstring" where
  "padStart n fill s = replicate (n - length s) fill @ s"

section \<open>Data model\<close>

text \<open>
  Coordinates, scores and times are JavaScript numbers; they are modelled as rationals, so
  the arithmetic below is exact.  A \<open>Canvas\<close> is a decoded picture: its size and the RGB
  value of every pixel.  A \<open>File\<close> is its name together with the picture it decodes to
  (\<open>None\<close> when the image fails to load); the object URL kept beside each file in the
  source refers to the same blob and is not modelled separately.
\<close>

record Detection =
  det_x :: rat
  det_y :: rat
  det_width :: rat
  det_height :: rat
  det_label :: jsstring
  det_confidence :: rat

record Canvas =
  cv_width :: nat
  cv_height :: nat
  cv_pixel :: "nat \<Rightarrow> nat \<Rightarrow> nat \<times> nat \<times> nat"

record File =
  file_name :: jsstring
  file_image :: "Canvas option"

record ImageData =
  img_file :: File
  detections :: "Detection list"
  frameNumber :: "nat option"
  sourceVideo :: "jsstring option"
  activityLabel :: "jsstring option"

text \<open>One prediction of the external detector: \<open>bbox = [x, y, width, height]\<close>.\<close>

record Prediction =
  pred_bbox :: "rat \<times> rat \<times> rat \<times> rat"
  pred_class :: jsstring
  pred_score :: rat

text \<open>
  The registry of clip counters is a plain JavaScript object, read with
  \<open>counters[label]\<close> and written with \<open>counters[label] = v\<close>.  It is modelled by its own
  properties, a map from keys to values, together with what it inherits from
  \<open>Object.prototype\<close>.  A value is a number (the counters are counts, modelled as natural
  numbers), a string, or an object or function, of which only the string that it converts
  to matters here.  \<open>objectPrototype\<close> gives the members of \<open>Object.prototype\<close>: the
  accessor \<open>__proto__\<close> yields \<open>Object.prototype\<close> itself, which converts to
  \<open>[object Object]\<close>; the other members are native functions, whose text is given as
  V8 prints it.

  \<open>getProperty\<close> is the property read, \<open>undefined\<close> being \<open>None\<close>; \<open>truthy\<close> is the test
  that \<open>||\<close> makes; \<open>jsAdd v n\<close> is \<open>v + n\<close> for a number \<open>n\<close>, which concatenates when \<open>v\<close>
  is not a number; \<open>jsToString\<close> is \<open>String(v)\<close>.  \<open>setProperty\<close> is the assignment: it
  creates or overwrites an own property, except for the key \<open>__proto__\<close> when it is not an
  own property, where the inherited setter ignores every value that is not an object (and
  \<open>+\<close> never yields an object).
\<close>

datatype JsValue = JsNumber nat | JsString jsstring | JsObject jsstring

definition objectPrototype :: "jsstring \<Rightarrow> JsValue option" where
  "objectPrototype key =
     (if key = str ''__proto__'' then Some (JsObject (str ''[object Object]''))
      else if key = str ''constructor''
      then Some (JsObject (str ''function Object() { [native code] }''))
      else if key \<in> set (map str [''toString'', ''toLocaleString'', ''valueOf'', ''hasOwnProperty'',
                  ''isPrototypeOf'', ''propertyIsEnumerable'', ''__defineGetter__'',
                  ''__defineSetter__'', ''__lookupGetter__'', ''__lookupSetter__''])
      then Some (JsObject (str ''function '' @ key @ str ''() { [native code] }''))
      else None)"

definition getProperty :: "(jsstring \<rightharpoonup> JsValue) \<Rightarrow> jsstring \<Rightarrow> JsValue option" where
  "getProperty obj key = (case obj key of Some v \<Rightarrow> Some v | None \<Rightarrow> objectPrototype key)"

fun truthy :: "JsValue \<Rightarrow> bool" where
  "truthy (JsNumber n) = (n \<noteq> 0)"
| "truthy (JsString s) = (s \<noteq> [])"
| "truthy (JsObject t) = True"

fun jsToString :: "JsValue \<Rightarrow> jsstring" where
  "jsToString (JsNumber n) = showNat n"
| "jsToString (JsString s) = s"
| "jsToString (JsObject t) = t"

fun jsAdd :: "JsValue \<Rightarrow> nat \<Rightarrow> JsValue" where
  "jsAdd (JsNumber m) n = JsNumber (m + n)"
| "jsAdd (JsString s) n = JsString (s @ showNat n)"
| "jsAdd (JsObject t) n = JsString (t @ showNat n)"

definition setProperty :: "(jsstring \<rightharpoonup> JsValue) \<Rightarrow> jsstring \<Rightarrow> JsValue \<Rightarrow> (jsstring \<rightharpoonup> JsValue)" where
  "setProperty obj key v =
     (case obj key of
        Some old \<Rightarrow> obj(key \<mapsto> v)
      | None \<Rightarrow> if key = str ''__proto__'' then obj else obj(key \<mapsto> v))"

text \<open>
  The component state that the operations below read or write.  \<open>model\<close> is \<open>None\<close> until
  the detector has been loaded; a loaded detector maps a picture to its predictions, or to
  \<open>None\<close> when the call throws.
\<close>

record AnnotatorState =
  images :: "ImageData list"
  currentIndex :: nat
  selectedImages :: "nat set"
  selectedDetection :: "nat option"
  model :: "(Canvas \<Rightarrow> Prediction list option) option"
  confidenceThreshold :: rat
  boundingBoxPadding :: rat
  filterMotionBlur :: bool
  blurThreshold :: rat
  enhanceVideo :: bool
  enhanceScale :: rat
  frameInterval :: rat
  chunkDuration :: rat
  exportOnlyLabeled :: bool
  labelClipCounters :: "jsstring \<rightharpoonup> JsValue"

section \<open>Annotation store\<close>

text \<open>\<open>applyQuickLabel\<close>: label every detection of the current image and unmark the image.\<close>

definition applyQuickLabel :: "jsstring \<Rightarrow> AnnotatorState \<Rightarrow> AnnotatorState" where
  "applyQuickLabel lbl st =
     (if length (images st) = 0 then st
      else if length (images st) \<le> currentIndex st then st
      else
        let img = images st ! currentIndex st;
            img' = img\<lparr>activityLabel := Some lbl,
                       detections := map (\<lambda>det. det\<lparr>det_label := lbl\<rparr>) (detections img)\<rparr>;
            st' = st\<lparr>images := (images st)[currentIndex st := img']\<rparr>
        in if currentIndex st \<in> selectedImages st
           then st'\<lparr>selectedImages := selectedImages st - {currentIndex st}\<rparr>
           else st')"

section \<open>Detector adapter\<close>

text \<open>The body of the \<open>map\<close> in \<open>detectObjects\<close>: padding, clamping, capitalised label.\<close>

definition capitalize :: "jsstring \<Rightarrow> jsstring" where
  "capitalize s = (case s of [] \<Rightarrow> [] | c # cs \<Rightarrow> toUpperUnit c # cs)"

definition toDetection :: "rat \<Rightarrow> Canvas \<Rightarrow> Prediction \<Rightarrow> Detection" where
  "toDetection paddingPercent img pred =
     (case pred_bbox pred of (bx, by, bw, bh) \<Rightarrow>
        let padding = bw * (paddingPercent / 100);
            x = max 0 (bx - padding);
            y = max 0 by;
            width = min (bw + padding * 2) (of_nat (cv_width img) - x);
            height = min bh (of_nat (cv_height img) - y)
        in \<lparr>det_x = x, det_y = y, det_width = width, det_height = height,
            det_label = capitalize (pred_class pred), det_confidence = pred_score pred\<rparr>)"

definition detectObjects :: "AnnotatorState \<Rightarrow> File \<Rightarrow> rat \<Rightarrow> Detection list" where
  "detectObjects st imageFile threshold =
     (case model st of
        None \<Rightarrow> []
      | Some m \<Rightarrow>
          (case file_image imageFile of
             None \<Rightarrow> []
           | Some img \<Rightarrow>
               (case m img of
                  None \<Rightarrow> []
                | Some predictions \<Rightarrow>
                    filter (\<lambda>det. det_width det > 0 \<and> det_height det > 0)
                      (map (toDetection (boundingBoxPadding st) img)
                        (filter (\<lambda>pred. pred_score pred \<ge> threshold) predictions)))))"

text \<open>\<open>handleRedetect\<close>: run the detector again on every stored image.\<close>

definition redetectImage :: "AnnotatorState \<Rightarrow> ImageData \<Rightarrow> ImageData" where
  "redetectImage st img =
     (let keepLabel = trim (case activityLabel img of None \<Rightarrow> [] | Some a \<Rightarrow> a);
          dets = detectObjects st (img_file img) (confidenceThreshold st);
          dets' = (if keepLabel \<noteq> []
                   then map (\<lambda>d. if toLowerCase (det_label d) = str ''person''
                                  then d\<lparr>det_label := keepLabel\<rparr> else d) dets
                   else dets)
      in img\<lparr>detections := dets'\<rparr>)"

definition handleRedetect :: "AnnotatorState \<Rightarrow> AnnotatorState" where
  "handleRedetect st =
     (case model st of
        None \<Rightarrow> st
      | Some m \<Rightarrow>
          if length (images st) = 0 then st
          else st\<lparr>images := map (redetectImage st) (images st), selectedDetection := None\<rparr>)"

section \<open>Exporter: labels and path segments\<close>

text \<open>The class names of the pretrained detector, which are never exported as activity labels.\<close>

definition cocoLabelNames :: "string list" where
  "cocoLabelNames =
     [''person'', ''bicycle'', ''car'', ''motorcycle'', ''airplane'', ''bus'', ''train'', ''truck'', ''boat'',
      ''traffic light'', ''fire hydrant'', ''stop sign'', ''parking meter'', ''bench'', ''bird'', ''cat'',
      ''dog'', ''horse'', ''sheep'', ''cow'', ''elephant'', ''bear'', ''zebra'', ''giraffe'', ''backpack'',
      ''umbrella'', ''handbag'', ''tie'', ''suitcase'', ''frisbee'', ''skis'', ''snowboard'', ''sports ball'',
      ''kite'', ''baseball bat'', ''baseball glove'', ''skateboard'', ''surfboard'', ''tennis racket'',
      ''bottle'', ''wine glass'', ''cup'', ''fork'', ''knife'', ''spoon'', ''bowl'', ''banana'', ''apple'',
      ''sandwich'', ''orange'', ''broccoli'', ''carrot'', ''hot dog'', ''pizza'', ''donut'', ''cake'', ''chair'',
      ''couch'', ''potted plant'', ''bed'', ''dining table'', ''toilet'', ''tv'', ''laptop'', ''mouse'', ''remote'',
      ''keyboard'', ''cell phone'', ''microwave'', ''oven'', ''toaster'', ''sink'', ''refrigerator'', ''book'',
      ''clock'', ''vase'', ''scissors'', ''teddy bear'', ''hair drier'', ''toothbrush'']"

definition cocoLabels :: "jsstring set" where
  "cocoLabels = set (map (\<lambda>l. toLowerCase (str l)) cocoLabelNames)"

text \<open>
  \<open>getCustomLabel\<close>: the explicit activity label when it is not blank, otherwise the first
  detection label that is not blank and not a detector class (\<open>fallbackLabel\<close> is the
  \<open>for\<close> loop over the detections).
\<close>

fun fallbackLabel :: "Detection list \<Rightarrow> jsstring option" where
  "fallbackLabel [] = None"
| "fallbackLabel (det # dets) =
     (let lbl = trim (det_label det)
      in if lbl \<noteq> [] \<and> toLowerCase lbl \<notin> cocoLabels then Some lbl else fallbackLabel dets)"

definition getCustomLabel :: "ImageData \<Rightarrow> jsstring option" where
  "getCustomLabel img =
     (let explicit = trim (case activityLabel img of None \<Rightarrow> [] | Some a \<Rightarrow> a)
      in if explicit \<noteq> [] then Some explicit else fallbackLabel (detections img))"

section \<open>Blur scorer\<close>







section \<open>Frame sampler\<close>

text \<open>
  A video is its file name and, for every time, the picture that seeking to that time and
  drawing the frame yields.  The upscaling and sharpening of \<open>enhanceFrame\<close> is passed in
  as a function; the lossy JPEG encoding between canvas and detector is not modelled.

  \<open>chunkFrameStep\<close> is one iteration of the loop of \<open>extractFramesFromChunk\<close>, on the
  pair of the frames and the blurry indices collected so far; \<open>personDetectionsOf\<close> is the
  part of it that runs the detector on the frame and keeps the person detections.  With a zero interval and
  \<open>startTime < endTime\<close> the loop of the source never ends, which is the result \<open>None\<close>.
\<close>

record Video =
  video_name :: jsstring
  video_frameAt :: "rat \<Rightarrow> Canvas"











section \<open>Exporter\<close>

text \<open>
  \<open>toSafePathSegment\<close>: trim, replace the nine characters that are not allowed in a path
  by their full-width forms, and drop a trailing video extension.  The regular
  expressions with the flag \<open>i\<close> match the ASCII letters in either case.
\<close>

definition replaceAll :: "nat \<Rightarrow> nat \<Rightarrow> jsstring \<Rightarrow> jsstring" where
  "replaceAll a b s = map (\<lambda>u. if u = a then b else u) s"

definition asciiLower :: "nat \<Rightarrow> nat" where
  "asciiLower u = (if 65 \<le> u \<and> u \<le> 90 then u + 32 else u)"

definition removeSuffixCI :: "string \<Rightarrow> jsstring \<Rightarrow> jsstring" where
  "removeSuffixCI ext s =
     (let n = length s - length ext
      in if length ext \<le> length s \<and> map asciiLower (drop n s) = str ext then take n s else s)"

definition toSafePathSegment :: "jsstring \<Rightarrow> jsstring" where
  "toSafePathSegment name =
     (removeSuffixCI ''.webm'' (removeSuffixCI ''.mkv'' (removeSuffixCI ''.mov''
       (removeSuffixCI ''.avi'' (removeSuffixCI ''.mp4''
         (replaceAll 124 65372 (replaceAll 62 65310 (replaceAll 60 65308 (replaceAll 34 65282
           (replaceAll 63 65311 (replaceAll 42 65290 (replaceAll 58 65306 (replaceAll 47 65295
             (replaceAll 92 65340 (trim name)))))))))))))))"

definition pad2 :: "JsValue \<Rightarrow> jsstring" where
  "pad2 n = padStart 2 48 (jsToString n)"

text \<open>
  The two maps \<open>byLabel\<close> and \<open>unlabeledByClip\<close> keep their keys in insertion order; they
  are association lists, and \<open>pushByKey\<close> and \<open>pushByLabel\<close> append a frame under its key,
  creating the key at the end when it is new.
\<close>

fun pushByKey :: "jsstring \<Rightarrow> ImageData \<Rightarrow> (jsstring \<times> ImageData list) list
    \<Rightarrow> (jsstring \<times> ImageData list) list" where
  "pushByKey k img [] = [(k, [img])]"
| "pushByKey k img ((k', imgs) # rest) =
     (if k = k' then (k', imgs @ [img]) # rest else (k', imgs) # pushByKey k img rest)"

fun pushByLabel :: "jsstring \<Rightarrow> jsstring \<Rightarrow> ImageData
    \<Rightarrow> (jsstring \<times> (jsstring \<times> ImageData list) list) list
    \<Rightarrow> (jsstring \<times> (jsstring \<times> ImageData list) list) list" where
  "pushByLabel l k img [] = [(l, [(k, [img])])]"
| "pushByLabel l k img ((l', byClip) # rest) =
     (if l = l' then (l', pushByKey k img byClip) # rest else (l', byClip) # pushByLabel l k img rest)"

definition clipKeyOf :: "ImageData \<Rightarrow> jsstring" where
  "clipKeyOf img =
     (let k = trim (case sourceVideo img of None \<Rightarrow> str ''ungrouped'' | Some v \<Rightarrow> v)
      in if k = [] then str ''ungrouped'' else k)"

definition groupStep :: "bool
    \<Rightarrow> (jsstring \<times> (jsstring \<times> ImageData list) list) list \<times> (jsstring \<times> ImageData list) list
    \<Rightarrow> ImageData
    \<Rightarrow> (jsstring \<times> (jsstring \<times> ImageData list) list) list \<times> (jsstring \<times> ImageData list) list" where
  "groupStep onlyLabeled acc img =
     (case acc of (byLabel, unlabeledByClip) \<Rightarrow>
        let clipKey = clipKeyOf img
        in (case getCustomLabel img of
              Some lbl \<Rightarrow>
                if lbl \<noteq> [] then (pushByLabel lbl clipKey img byLabel, unlabeledByClip)
                else if onlyLabeled then acc
                else (byLabel, pushByKey clipKey img unlabeledByClip)
            | None \<Rightarrow>
                if onlyLabeled then acc
                else (byLabel, pushByKey clipKey img unlabeledByClip)))"

text \<open>
  Sorting: \<open>localeCompare\<close> depends on the collation of the host and is a parameter
  \<open>cmp\<close> of the exporter.  \<open>sortBy\<close> is a stable insertion sort on a comparator, as
  \<open>Array.prototype.sort\<close> is stable.
\<close>

fun insertBy :: "('a \<Rightarrow> 'a \<Rightarrow> int) \<Rightarrow> 'a \<Rightarrow> 'a list \<Rightarrow> 'a list" where
  "insertBy c a [] = [a]"
| "insertBy c a (b # bs) = (if c a b \<le> 0 then a # b # bs else b # insertBy c a bs)"

definition sortBy :: "('a \<Rightarrow> 'a \<Rightarrow> int) \<Rightarrow> 'a list \<Rightarrow> 'a list" where
  "sortBy c as = foldr (insertBy c) as []"

definition frameCompare :: "(jsstring \<Rightarrow> jsstring \<Rightarrow> int) \<Rightarrow> ImageData \<Rightarrow> ImageData \<Rightarrow> int" where
  "frameCompare cmp a b =
     (let fa = (case frameNumber a of None \<Rightarrow> 0 | Some n \<Rightarrow> n);
          fb = (case frameNumber b of None \<Rightarrow> 0 | Some n \<Rightarrow> n)
      in if fa \<noteq> fb then int fa - int fb
         else cmp (file_name (img_file a)) (file_name (img_file b)))"

definition sortFrames :: "(jsstring \<Rightarrow> jsstring \<Rightarrow> int) \<Rightarrow> ImageData list \<Rightarrow> ImageData list" where
  "sortFrames cmp frames = sortBy (frameCompare cmp) frames"

text \<open>The files written to the archive.\<close>

record Annotation =
  ann_label :: jsstring
  ann_x :: int
  ann_y :: int
  ann_width :: int
  ann_height :: int
  ann_confidence :: rat

record FrameData =
  fd_width :: "nat option"
  fd_height :: "nat option"
  fd_sourceClip :: jsstring
  fd_clipFolder :: jsstring
  fd_frameNumber :: "nat option"
  fd_activityLabel :: jsstring
  fd_annotations :: "Annotation list"

datatype ZipContent = JpgBlob File | JsonText FrameData

type_synonym ZipEntry = "jsstring list \<times> ZipContent"

text \<open>One numbered clip folder of a label, with the files put into its two copies.\<close>

record ExportedClip =
  ec_label :: jsstring
  ec_clipKey :: jsstring
  ec_clipNumber :: JsValue
  ec_clipFolderName :: jsstring
  ec_files :: "ZipEntry list"

definition MAX_FRAMES_PER_CLIP :: nat where
  "MAX_FRAMES_PER_CLIP = 200"

function frameChunksOf :: "ImageData list \<Rightarrow> ImageData list list" where
  "frameChunksOf frames =
     (if length frames = 0 then []
      else take MAX_FRAMES_PER_CLIP frames # frameChunksOf (drop MAX_FRAMES_PER_CLIP frames))"
  by pat_completeness auto
termination
  by (relation "measure length") (auto simp: MAX_FRAMES_PER_CLIP_def)

declare frameChunksOf.simps [simp del]

definition roundJs :: "rat \<Rightarrow> int" where
  "roundJs v = \<lfloor>v + 1 / 2\<rfloor>"

definition frameDataOf :: "jsstring \<Rightarrow> jsstring \<Rightarrow> jsstring \<Rightarrow> ImageData \<Rightarrow> FrameData" where
  "frameDataOf lbl clipKey clipFolderName img =
     (let customDetections =
            filter (\<lambda>d. let l = trim (det_label d)
                         in if l = [] then False else toLowerCase l \<notin> cocoLabels) (detections img);
          dims = file_image (img_file img)
      in \<lparr>fd_width = map_option cv_width dims,
          fd_height = map_option cv_height dims,
          fd_sourceClip = clipKey,
          fd_clipFolder = clipFolderName,
          fd_frameNumber = frameNumber img,
          fd_activityLabel = lbl,
          fd_annotations =
            map (\<lambda>det. \<lparr>ann_label = det_label det, ann_x = roundJs (det_x det),
                          ann_y = roundJs (det_y det), ann_width = roundJs (det_width det),
                          ann_height = roundJs (det_height det),
                          ann_confidence = det_confidence det\<rparr>) customDetections\<rparr>)"

definition exportChunk :: "jsstring \<Rightarrow> jsstring \<Rightarrow> jsstring \<Rightarrow> JsValue \<Rightarrow> ImageData list
    \<Rightarrow> ExportedClip" where
  "exportChunk lbl safeLabel clipKey clipNumber chunkFrames =
     (let clipFolderName = safeLabel @ pad2 clipNumber;
          folder = toSafePathSegment clipFolderName
      in \<lparr>ec_label = lbl, ec_clipKey = clipKey, ec_clipNumber = clipNumber,
          ec_clipFolderName = clipFolderName,
          ec_files =
            concat (map (\<lambda>(clipFrameCounter, img).
                let baseName = str ''frames'' @ padStart 5 48 (showNat clipFrameCounter)
                in [([safeLabel, folder, baseName @ str ''.jpg''], JpgBlob (img_file img)),
                    ([safeLabel @ str '' labeld'', folder, baseName @ str ''.json''],
                     JsonText (frameDataOf lbl clipKey clipFolderName img))])
              (enumerate 1 chunkFrames))\<rparr>)"

text \<open>
  The loop over the sorted clip keys of one label; \<open>totalClips\<close> is \<open>totalClipsForLabel\<close>, and
  the result carries its final value.
\<close>

fun exportClips :: "jsstring \<Rightarrow> jsstring \<Rightarrow> JsValue \<Rightarrow> (jsstring \<times> ImageData list) list \<Rightarrow> nat
    \<Rightarrow> jsstring list \<Rightarrow> ExportedClip list \<times> nat" where
  "exportClips lbl safeLabel currentClipOffset byClip totalClips [] = ([], totalClips)"
| "exportClips lbl safeLabel currentClipOffset byClip totalClips (clipKey # clipKeys) =
     (let frames = (case map_of byClip clipKey of None \<Rightarrow> [] | Some fs \<Rightarrow> fs)
      in if length frames = 0 then exportClips lbl safeLabel currentClipOffset byClip totalClips clipKeys
         else
           let frameChunks = frameChunksOf frames;
               clips = map (\<lambda>(chunkIndex, chunkFrames).
                          exportChunk lbl safeLabel clipKey
                            (jsAdd currentClipOffset (totalClips + chunkIndex + 1)) chunkFrames)
                        (enumerate 0 frameChunks);
               rest = exportClips lbl safeLabel currentClipOffset byClip
                        (totalClips + length frameChunks) clipKeys
           in (clips @ fst rest, snd rest))"

text \<open>\<open>counters[label] || 0\<close>: the value read, or 0 when there is none or it is not truthy.\<close>

definition counterOf :: "(jsstring \<rightharpoonup> JsValue) \<Rightarrow> jsstring \<Rightarrow> JsValue" where
  "counterOf counters lbl =
     (case getProperty counters lbl of
        None \<Rightarrow> JsNumber 0
      | Some v \<Rightarrow> if truthy v then v else JsNumber 0)"

text \<open>The loop over the labels, which threads \<open>newClipCounters\<close>.\<close>

fun exportLabels :: "(jsstring \<Rightarrow> jsstring \<Rightarrow> int) \<Rightarrow> (jsstring \<rightharpoonup> JsValue)
    \<Rightarrow> (jsstring \<times> (jsstring \<times> ImageData list) list) list
    \<Rightarrow> ExportedClip list \<times> (jsstring \<rightharpoonup> JsValue)" where
  "exportLabels cmp newClipCounters [] = ([], newClipCounters)"
| "exportLabels cmp newClipCounters ((lbl, byClip) # byLabel) =
     (let safeLabel = toSafePathSegment lbl;
          currentClipOffset = counterOf newClipCounters lbl;
          clipKeys = sortBy cmp (map fst byClip);
          cur = exportClips lbl safeLabel currentClipOffset byClip 0 clipKeys;
          rest = exportLabels cmp
                   (setProperty newClipCounters lbl (jsAdd currentClipOffset (snd cur))) byLabel
      in (fst cur @ fst rest, snd rest))"

definition exportUnlabeled :: "(jsstring \<Rightarrow> jsstring \<Rightarrow> int) \<Rightarrow> (jsstring \<times> ImageData list) list
    \<Rightarrow> ZipEntry list" where
  "exportUnlabeled cmp unlabeledByClip =
     concat (map (\<lambda>clipKey.
         let frames = (case map_of unlabeledByClip clipKey of None \<Rightarrow> [] | Some fs \<Rightarrow> fs)
         in map (\<lambda>(frameCounter, img).
                  ([str ''Unlabeled'', toSafePathSegment clipKey,
                    padStart 5 48 (showNat frameCounter) @ str ''.jpg''], JpgBlob (img_file img)))
              (enumerate 1 frames))
       (sortBy cmp (map fst unlabeledByClip)))"

datatype ExportError = NothingToExport

record ExportOutput =
  out_clips :: "ExportedClip list"
  out_unlabeled :: "ZipEntry list"

text \<open>The clip-folder ordinals that an export gave to one label, in the order of creation.\<close>

definition ordinalsOf :: "jsstring \<Rightarrow> ExportOutput \<Rightarrow> JsValue list" where
  "ordinalsOf lbl out = map ec_clipNumber (filter (\<lambda>c. ec_label c = lbl) (out_clips out))"

definition zipEntries :: "ExportOutput \<Rightarrow> ZipEntry list" where
  "zipEntries out = concat (map ec_files (out_clips out)) @ out_unlabeled out"

definition imagesToExport :: "AnnotatorState \<Rightarrow> ImageData list" where
  "imagesToExport st =
     (if exportOnlyLabeled st then filter (\<lambda>img. getCustomLabel img \<noteq> None) (images st)
      else images st)"

definition handleExportAnnotatedClips :: "(jsstring \<Rightarrow> jsstring \<Rightarrow> int) \<Rightarrow> AnnotatorState
    \<Rightarrow> (ExportError + ExportOutput) \<times> AnnotatorState" where
  "handleExportAnnotatedClips cmp st =
     (if length (imagesToExport st) = 0 then (Inl NothingToExport, st)
      else
        let grouped = foldl (groupStep (exportOnlyLabeled st)) ([], []) (imagesToExport st);
            byLabel = map (\<lambda>(lbl, byClip). (lbl, map (\<lambda>(k, frames). (k, sortFrames cmp frames)) byClip))
                        (fst grouped);
            unlabeledByClip = map (\<lambda>(k, frames). (k, sortFrames cmp frames)) (snd grouped);
            labelled = exportLabels cmp (labelClipCounters st) byLabel;
            unlabeled = (if exportOnlyLabeled st then [] else exportUnlabeled cmp unlabeledByClip)
        in (Inr \<lparr>out_clips = fst labelled, out_unlabeled = unlabeled\<rparr>,
            st\<lparr>labelClipCounters := snd labelled\<rparr>))"

section \<open>Clip segmenter\<close>

record ClipFrame =
  cf_file :: File
  cf_frameNumber :: nat

record ClipData =
  clip_name :: jsstring
  clip_frames :: "ClipFrame list"
  clip_sourceVideo :: jsstring
  clip_isManual :: bool

text \<open>\<open>name.replace(/\.[^/.]+$/, "")\<close>: drop the extension after the last dot.\<close>

definition stripExtension :: "jsstring \<Rightarrow> jsstring" where
  "stripExtension name =
     (let ext = rev (takeWhile (\<lambda>u. u \<noteq> 46) (rev name))
      in if length ext < length name \<and> ext \<noteq> [] \<and> 47 \<notin> set ext
         then take (length name - length ext - 1) name else name)"

text \<open>
  \<open>createClipsFromVideo\<close>, automatic clips.  \<open>clipFramesOf\<close> is the inner loop for one clip,
  which stops at the first time beyond the duration; \<open>sampledIndices\<close> are the values of
  \<open>frameInClip\<close> that it reaches.  The result is \<open>None\<close> where the loops of
  the source never end (a zero interval, or no frames per clip).
\<close>

definition sampledIndices :: "rat \<Rightarrow> rat \<Rightarrow> nat \<Rightarrow> nat \<Rightarrow> nat list" where
  "sampledIndices duration clipFrameInterval framesPerClip clipIdx =
     takeWhile (\<lambda>frameInClip.
         of_nat (clipIdx * framesPerClip + frameInClip) * clipFrameInterval \<le> duration)
       [0..<framesPerClip]"

definition clipFramesOf :: "Video \<Rightarrow> rat \<Rightarrow> rat \<Rightarrow> nat \<Rightarrow> nat \<Rightarrow> ClipFrame list" where
  "clipFramesOf video duration clipFrameInterval framesPerClip clipIdx =
     map (\<lambda>frameInClip.
            \<lparr>cf_file =
               \<lparr>file_name = padStart 5 48 (showNat (frameInClip + 1)) @ str ''.jpg'',
                file_image = Some (video_frameAt video
                   (of_nat (clipIdx * framesPerClip + frameInClip) * clipFrameInterval))\<rparr>,
             cf_frameNumber = frameInClip + 1\<rparr>)
       (sampledIndices duration clipFrameInterval framesPerClip clipIdx)"

definition createClipsFromVideo :: "Video \<Rightarrow> rat \<Rightarrow> rat \<Rightarrow> nat \<Rightarrow> ClipData list option" where
  "createClipsFromVideo video duration clipFrameInterval framesPerClip =
     (if duration \<le> 0 then Some []
      else if clipFrameInterval = 0 then None
      else
        let totalFrames = \<lfloor>duration / clipFrameInterval\<rfloor>
        in if framesPerClip = 0 then (if totalFrames > 0 then None else Some [])
           else
             let numClips = \<lceil>(of_int totalFrames :: rat) / of_nat framesPerClip\<rceil>
             in Some (filter (\<lambda>c. 0 < length (clip_frames c))
                  (map (\<lambda>clipIdx.
                      \<lparr>clip_name = stripExtension (video_name video)
                                      @ padStart 2 48 (showNat (clipIdx + 1)),
                       clip_frames = clipFramesOf video duration clipFrameInterval framesPerClip clipIdx,
                       clip_sourceVideo = video_name video,
                       clip_isManual = False\<rparr>)
                    [0..<nat numClips])))"



text \<open>Manual clips: \<open>extractClipsFromMarkers\<close> of the clip editor.\<close>

record ClipMarker =
  marker_startTime :: rat
  marker_endTime :: rat

record ManualClipData =
  mclip_name :: jsstring
  mclip_frames :: "ClipFrame list"
  mclip_sourceVideo :: jsstring

text \<open>\<open>formatTime\<close> for a time that is not negative (marker times are clamped at 0).\<close>

definition toFixed1 :: "rat \<Rightarrow> jsstring" where
  "toFixed1 v = (let n = nat \<lfloor>v * 10 + 1 / 2\<rfloor> in showNat (n div 10) @ [46] @ showNat (n mod 10))"

definition formatTime :: "rat \<Rightarrow> jsstring" where
  "formatTime seconds =
     (let mins = nat \<lfloor>seconds / 60\<rfloor>;
          secs = seconds - 60 * of_nat mins
      in padStart 2 48 (showNat mins) @ [58] @ padStart 4 48 (toFixed1 secs))"

fun replaceFirst :: "nat \<Rightarrow> nat \<Rightarrow> jsstring \<Rightarrow> jsstring" where
  "replaceFirst a b [] = []"
| "replaceFirst a b (u # us) = (if u = a then b # us else u # replaceFirst a b us)"

text \<open>
  The times \<open>startTime, startTime + frameInterval, ...\<close> below \<open>endTime\<close>.  The loop of the
  source never ends when the interval is not positive and \<open>startTime < endTime\<close>.
\<close>

function frameTimesFrom :: "rat \<Rightarrow> rat \<Rightarrow> rat \<Rightarrow> rat list" where
  "frameTimesFrom t endTime interval =
     (if 0 < interval \<and> t < endTime then t # frameTimesFrom (t + interval) endTime interval else [])"
  by pat_completeness auto
termination
proof (relation "measure (\<lambda>(t, endTime, interval). nat \<lceil>(endTime - t) / interval\<rceil>)")
  show "wf (measure (\<lambda>(t, endTime, interval). nat \<lceil>(endTime - t) / interval\<rceil>))"
    by simp
next
  fix t endTime interval :: rat
  assume a: "0 < interval \<and> t < endTime"
  then have "(endTime - (t + interval)) / interval = (endTime - t) / interval - 1"
    by (simp add: field_simps)
  moreover from a have "0 < (endTime - t) / interval"
    by simp
  ultimately have "nat \<lceil>(endTime - (t + interval)) / interval\<rceil> < nat \<lceil>(endTime - t) / interval\<rceil>"
    by (simp add: ceiling_diff_one)
  then show "((t + interval, endTime, interval), (t, endTime, interval))
      \<in> measure (\<lambda>(t, endTime, interval). nat \<lceil>(endTime - t) / interval\<rceil>)"
    by simp
qed

declare frameTimesFrom.simps [simp del]

definition frameTimes :: "rat \<Rightarrow> rat \<Rightarrow> rat \<Rightarrow> rat list option" where
  "frameTimes startTime endTime interval =
     (if interval \<le> 0 \<and> startTime < endTime then None
      else Some (frameTimesFrom startTime endTime interval))"

definition ceilDiv :: "nat \<Rightarrow> nat \<Rightarrow> nat" where
  "ceilDiv a b = nat \<lceil>(of_nat a :: rat) / of_nat b\<rceil>"

definition slice :: "nat \<Rightarrow> nat \<Rightarrow> 'a list \<Rightarrow> 'a list" where
  "slice start stop xs = take (stop - start) (drop start xs)"

text \<open>
  The last step of the loop body for one marker: a clip of at most 200 frames is kept
  whole, a longer one is cut into \<open>numChunks\<close> consecutive parts.  \<open>splitPart\<close> is the
  body of the loop over \<open>chunkIdx\<close>.
\<close>

definition splitPart :: "jsstring \<Rightarrow> jsstring \<Rightarrow> ClipFrame list \<Rightarrow> nat \<Rightarrow> nat \<Rightarrow> ManualClipData" where
  "splitPart clipBase sourceVideoName allFrames chunkSize chunkIdx =
     (let start = chunkIdx * chunkSize;
          stop = min (start + chunkSize) (length allFrames);
          chunkFrames = slice start stop allFrames;
          renumberedFrames =
            map (\<lambda>(idx, f). f\<lparr>cf_frameNumber := idx + 1\<rparr>) (enumerate 0 chunkFrames)
      in \<lparr>mclip_name = clipBase @ str ''_part'' @ showNat (chunkIdx + 1),
          mclip_frames = renumberedFrames,
          mclip_sourceVideo = sourceVideoName\<rparr>)"

definition splitIntoClips :: "jsstring \<Rightarrow> jsstring \<Rightarrow> ClipFrame list \<Rightarrow> ManualClipData list" where
  "splitIntoClips clipBase sourceVideoName allFrames =
     (if length allFrames \<le> MAX_FRAMES_PER_CLIP
      then [\<lparr>mclip_name = clipBase, mclip_frames = allFrames, mclip_sourceVideo = sourceVideoName\<rparr>]
      else
        let numChunks = ceilDiv (length allFrames) MAX_FRAMES_PER_CLIP;
            chunkSize = ceilDiv (length allFrames) numChunks
        in map (splitPart clipBase sourceVideoName allFrames chunkSize) [0..<numChunks])"

definition markerClipBase :: "nat \<Rightarrow> ClipMarker \<Rightarrow> jsstring" where
  "markerClipBase markerIdx marker =
     str ''clip_'' @ padStart 3 48 (showNat (markerIdx + 1)) @ str ''_''
       @ replaceFirst 58 45 (formatTime (marker_startTime marker))"

definition clipsOfMarker :: "Video \<Rightarrow> rat \<Rightarrow> nat \<Rightarrow> ClipMarker \<Rightarrow> ManualClipData list option" where
  "clipsOfMarker video interval markerIdx marker =
     (case frameTimes (marker_startTime marker) (marker_endTime marker) interval of
        None \<Rightarrow> None
      | Some ts \<Rightarrow>
          Some (splitIntoClips (markerClipBase markerIdx marker) (video_name video)
            (map (\<lambda>(frameIdx, time).
                    \<lparr>cf_file = \<lparr>file_name = padStart 5 48 (showNat (frameIdx + 1)) @ str ''.jpg'',
                                file_image = Some (video_frameAt video time)\<rparr>,
                     cf_frameNumber = frameIdx + 1\<rparr>)
               (enumerate 0 ts))))"

fun clipsOfMarkers :: "Video \<Rightarrow> rat \<Rightarrow> (nat \<times> ClipMarker) list \<Rightarrow> ManualClipData list option" where
  "clipsOfMarkers video interval [] = Some []"
| "clipsOfMarkers video interval ((markerIdx, marker) # rest) =
     (case clipsOfMarker video interval markerIdx marker of
        None \<Rightarrow> None
      | Some clips \<Rightarrow>
          (case clipsOfMarkers video interval rest of
             None \<Rightarrow> None
           | Some others \<Rightarrow> Some (clips @ others)))"

datatype ExtractResult = NoMarkers | NeverReturns | ClipsCreated "ManualClipData list"

definition extractClipsFromMarkers :: "Video option \<Rightarrow> ClipMarker list \<Rightarrow> rat \<Rightarrow> ExtractResult" where
  "extractClipsFromMarkers videoFile markers interval =
     (case videoFile of
        None \<Rightarrow> NoMarkers
      | Some video \<Rightarrow>
          if length markers = 0 then NoMarkers
          else (case clipsOfMarkers video interval (enumerate 0 markers) of
                  None \<Rightarrow> NeverReturns
                | Some clips \<Rightarrow> ClipsCreated clips))"

section \<open>Invariant of the loops that collect frames\<close>




section \<open>Example inputs\<close>

text \<open>
  A black picture of 4 by 4 pixels, a checkerboard of the same size, a detector that
  finds one person filling the picture and a chair of low score, and a comparison of
  strings by code units that stands for \<open>localeCompare\<close>.
\<close>

definition blackCanvas :: Canvas where
  "blackCanvas = \<lparr>cv_width = 4, cv_height = 4, cv_pixel = (\<lambda>col row. (0, 0, 0))\<rparr>"

definition checkerCanvas :: Canvas where
  "checkerCanvas = \<lparr>cv_width = 4, cv_height = 4,
     cv_pixel = (\<lambda>col row. if (col + row) mod 2 = 0 then (255, 255, 255) else (0, 0, 0))\<rparr>"

definition personModel :: "Canvas \<Rightarrow> Prediction list option" where
  "personModel cv =
     Some [\<lparr>pred_bbox = (0, 0, 4, 4), pred_class = str ''person'', pred_score = 9 / 10\<rparr>,
           \<lparr>pred_bbox = (1, 1, 2, 2), pred_class = str ''chair'', pred_score = 3 / 10\<rparr>]"

definition exampleFile :: File where
  "exampleFile = \<lparr>file_name = str ''00001.jpg'', file_image = Some blackCanvas\<rparr>"

definition exampleImage :: "jsstring option \<Rightarrow> string \<Rightarrow> ImageData" where
  "exampleImage a clip =
     \<lparr>img_file = exampleFile,
      detections = [\<lparr>det_x = 0, det_y = 0, det_width = 4, det_height = 4,
                     det_label = str ''Person'', det_confidence = 9 / 10\<rparr>],
      frameNumber = Some 1, sourceVideo = Some (str clip), activityLabel = a\<rparr>"

definition exampleState :: "ImageData list \<Rightarrow> AnnotatorState" where
  "exampleState imgs =
     \<lparr>images = imgs, currentIndex = 0, selectedImages = {0}, selectedDetection = None,
      model = Some personModel, confidenceThreshold = 1 / 2, boundingBoxPadding = 15,
      filterMotionBlur = True, blurThreshold = 100, enhanceVideo = False, enhanceScale = 2,
      frameInterval = 1, chunkDuration = 10, exportOnlyLabeled = True,
      labelClipCounters = Map.empty\<rparr>"

definition exampleVideo :: Video where
  "exampleVideo = \<lparr>video_name = str ''shift.mp4'',
     video_frameAt = (\<lambda>t. if t = 1 then checkerCanvas else blackCanvas)\<rparr>"

fun compareUnits :: "jsstring \<Rightarrow> jsstring \<Rightarrow> int" where
  "compareUnits [] [] = 0"
| "compareUnits [] (b # bs) = - 1"
| "compareUnits (a # as) [] = 1"
| "compareUnits (a # as) (b # bs) = (if a < b then - 1 else if b < a then 1 else compareUnits as bs)"

text \<open>The empty store, and stores of one frame: unlabelled, labelled, and labelled with a blank.\<close>

definition emptyStore :: AnnotatorState where
  "emptyStore = exampleState []"

definition unlabelledStore :: AnnotatorState where
  "unlabelledStore = exampleState [exampleImage None ''clip01'']"

definition weldingStore :: AnnotatorState where
  "weldingStore = exampleState [exampleImage (Some (str ''Welding'')) ''clip01'']"

definition blankStore :: AnnotatorState where
  "blankStore = exampleState [exampleImage (Some (str '' '')) ''clip01'']"

text \<open>The detection that \<open>personModel\<close> yields on a picture of 4 by 4 pixels.\<close>

definition personDetection :: Detection where
  "personDetection = \<lparr>det_x = 0, det_y = 0, det_width = 4, det_height = 4,
     det_label = str ''Person'', det_confidence = 9 / 10\<rparr>"









text \<open>
  A store of two frames labelled Welding, from two clips, and one unlabelled frame, with a
  given registry of clip counters; and the two clip folders that an export of it creates
  when the value read from the registry for Welding is \<open>c\<close>.
\<close>

definition weldingA :: ImageData where
  "weldingA = exampleImage (Some (str ''Welding'')) ''clipA''"

definition weldingB :: ImageData where
  "weldingB = exampleImage (Some (str ''Welding'')) ''clipB''"

definition exportStore :: "(jsstring \<rightharpoonup> JsValue) \<Rightarrow> AnnotatorState" where
  "exportStore counters =
     (exampleState [weldingA, weldingB, exampleImage None ''clipA''])\<lparr>labelClipCounters := counters\<rparr>"

definition exportedWelding :: "JsValue \<Rightarrow> ExportOutput" where
  "exportedWelding c =
     \<lparr>out_clips =
        [exportChunk (str ''Welding'') (str ''Welding'') (str ''clipA'') (jsAdd c 1) [weldingA],
         exportChunk (str ''Welding'') (str ''Welding'') (str ''clipB'') (jsAdd c 2) [weldingB]],
      out_unlabeled = []\<rparr>"

text \<open>
  A store of two frames with the activity label \<open>__proto__\<close>, from two clips, with an empty
  registry, and the two clip folders that an export of it creates.
\<close>

definition protoA :: ImageData where
  "protoA = exampleImage (Some (str ''__proto__'')) ''clipA''"

definition protoB :: ImageData where
  "protoB = exampleImage (Some (str ''__proto__'')) ''clipB''"

definition protoStore :: AnnotatorState where
  "protoStore = exampleState [protoA, protoB]"

definition protoExport :: ExportOutput where
  "protoExport =
     \<lparr>out_clips =
        [exportChunk (str ''__proto__'') (str ''__proto__'') (str ''clipA'')
           (JsString (str ''[object Object]1'')) [protoA],
         exportChunk (str ''__proto__'') (str ''__proto__'') (str ''clipB'')
           (JsString (str ''[object Object]2'')) [protoB]],
      out_unlabeled = []\<rparr>"

text \<open>A store whose only frame has no label, with a registry that already counts two clips.\<close>

definition noLabelStore :: AnnotatorState where
  "noLabelStore = unlabelledStore\<lparr>labelClipCounters := [str ''Welding'' \<mapsto> JsNumber 2]\<rparr>"

text \<open>
  A marker of 201 seconds, which at one frame per second holds 201 frames, one more than a
  clip may hold, and the clips that the editor extracts for it from the example video.
\<close>

definition longMarker :: ClipMarker where
  "longMarker = \<lparr>marker_startTime = 0, marker_endTime = 201\<rparr>"

definition longMarkerClips :: "ManualClipData list" where
  "longMarkerClips =
     (case extractClipsFromMarkers (Some exampleVideo) [longMarker] 1 of
        ClipsCreated clips \<Rightarrow> clips | _ \<Rightarrow> [])"

section \<open>Auxiliary facts about lists and numbers\<close>

lemma map_fst_enumerate_fun:
  "map (\<lambda>x. f (fst x)) (enumerate n xs) = map f [n..<n + length xs]"
proof -
  have "map (f \<circ> fst) (enumerate n xs) = map f (map fst (enumerate n xs))"
    by (simp only: map_map)
  then have "map (f \<circ> fst) (enumerate n xs) = map f [n..<n + length xs]"
    by (simp only: map_fst_enumerate)
  then show ?thesis
    by (simp only: comp_def)
qed

lemma upt_append_upt:
  "a \<le> b \<Longrightarrow> b \<le> c \<Longrightarrow> [a..<b] @ [b..<c] = [a..<(c::nat)]"
  by (metis le_Suc_ex upt_add_eq_append)

lemma enumerate_numbers:
  "map (\<lambda>x. c + fst x + 1) (enumerate 0 xs) = [c + 1 ..< c + length xs + 1]"
proof -
  have "map (\<lambda>x. c + fst x + 1) (enumerate 0 xs) = map (\<lambda>i. i + (c + 1)) [0..<0 + length xs]"
    by (subst map_fst_enumerate_fun[symmetric]) (simp add: add.commute add.left_commute)
  also have "\<dots> = [c + 1 ..< c + length xs + 1]"
    by (simp only: map_add_upt) (simp add: add.commute add.left_commute)
  finally show ?thesis .
qed

lemma concat_take_chunks:
  "concat (map (\<lambda>i. take cs (drop (i * cs) xs)) [0..<k]) = take (k * cs) xs"
proof (induction k)
  case 0
  show ?case by simp
next
  case (Suc k)
  have "Suc k * cs = k * cs + cs"
    by simp
  then have "take (Suc k * cs) xs = take (k * cs) xs @ take cs (drop (k * cs) xs)"
    by (simp only: take_add)
  with Suc show ?case by simp
qed

text \<open>Reading the digits of \<open>showNat n\<close> gives \<open>n\<close> back, so \<open>showNat\<close> is injective.\<close>

lemma readBack_showNat: "foldl (\<lambda>a d. 10 * a + (d - 48)) 0 (showNat n) = n"
proof (induction n rule: showNat.induct)
  case (1 n)
  show ?case
  proof (cases "n < 10")
    case True
    then show ?thesis by (subst showNat.simps) simp
  next
    case False
    with 1 show ?thesis by (subst showNat.simps) simp
  qed
qed

lemma showNat_inj: "showNat m = showNat n \<Longrightarrow> m = n"
  by (metis readBack_showNat)

text \<open>
  The two equations of \<open>showNat\<close> as conditional rules, and facts that evaluate strings and
  the example inputs.
\<close>

lemma showNat_small: "n < 10 \<Longrightarrow> showNat n = [48 + n]"
  by (subst showNat.simps) simp

lemma showNat_large: "10 \<le> n \<Longrightarrow> showNat n = showNat (n div 10) @ [48 + n mod 10]"
  by (subst showNat.simps) simp

lemma replicate_numeral: "replicate (numeral k) x = x # replicate (pred_numeral k) x"
  by (simp add: numeral_eq_Suc)

lemmas string_eval = str_def trim_def isWhiteSpace_def toLowerCase_def toLowerUnit_def asciiLower_def
  toUpperUnit_def capitalize_def padStart_def showNat_small showNat_large replicate_numeral

lemmas example_eval = exampleState_def exampleImage_def exampleFile_def personModel_def
  blackCanvas_def checkerCanvas_def exampleVideo_def personDetection_def emptyStore_def

section \<open>Labelling a frame\<close>

text \<open>
  Claim C9.  Applying a label to the current frame twice in succession leaves the store in
  exactly the state that applying it once produces: the frame's activity label, the label
  of each of its detections, and the set of frames marked for review.
\<close>

theorem applyQuickLabel_idempotent:
  "applyQuickLabel lbl (applyQuickLabel lbl st) = applyQuickLabel lbl st"
  by (auto simp: applyQuickLabel_def Let_def comp_def)

theorem applyQuickLabel_idempotent_witness:
  "applyQuickLabel (str ''Welding'') (applyQuickLabel (str ''Welding'') unlabelledStore)
     = applyQuickLabel (str ''Welding'') unlabelledStore
   \<and> map activityLabel (images (applyQuickLabel (str ''Welding'') unlabelledStore))
     = [Some (str ''Welding'')]
   \<and> map (\<lambda>img. map det_label (detections img))
        (images (applyQuickLabel (str ''Welding'') unlabelledStore)) = [[str ''Welding'']]
   \<and> selectedImages unlabelledStore = {0}
   \<and> selectedImages (applyQuickLabel (str ''Welding'') unlabelledStore) = {}"
  using applyQuickLabel_idempotent [of "str ''Welding''" unlabelledStore]
  by (simp add: applyQuickLabel_def unlabelledStore_def exampleState_def exampleImage_def Let_def)

section \<open>Detections stay inside the image\<close>

lemma toDetection_bounds:
  "0 \<le> det_x (toDetection p img pr) \<and> 0 \<le> det_y (toDetection p img pr)
   \<and> det_x (toDetection p img pr) + det_width (toDetection p img pr) \<le> of_nat (cv_width img)
   \<and> det_y (toDetection p img pr) + det_height (toDetection p img pr) \<le> of_nat (cv_height img)
   \<and> det_confidence (toDetection p img pr) = pred_score pr"
  by (cases "pred_bbox pr") (auto simp: toDetection_def Let_def min_def max_def)

text \<open>
  Claim C5.  Every detection that \<open>detectObjects\<close> returns for an image lies inside the
  image after padding and clamping, has positive width and height, and has a confidence of
  at least the threshold.
\<close>

theorem detectObjects_within_image:
  assumes "d \<in> set (detectObjects st imageFile threshold)"
  shows "\<exists>img. file_image imageFile = Some img
      \<and> 0 \<le> det_x d \<and> 0 \<le> det_y d
      \<and> det_x d + det_width d \<le> of_nat (cv_width img)
      \<and> det_y d + det_height d \<le> of_nat (cv_height img)
      \<and> 0 < det_width d \<and> 0 < det_height d
      \<and> threshold \<le> det_confidence d"
proof -
  from assms obtain m img preds where m: "model st = Some m"
    and img: "file_image imageFile = Some img" and preds: "m img = Some preds"
    by (cases "model st"; cases "file_image imageFile";
        cases "the (model st) (the (file_image imageFile))")
       (auto simp: detectObjects_def)
  from assms m img preds obtain pr where pr: "pr \<in> set preds" "threshold \<le> pred_score pr"
    and d: "d = toDetection (boundingBoxPadding st) img pr"
    and pos: "0 < det_width d" "0 < det_height d"
    by (auto simp: detectObjects_def)
  from toDetection_bounds[of "boundingBoxPadding st" img pr] d pr pos img
  show ?thesis by simp
qed

theorem detectObjects_within_image_witness:
  "detectObjects unlabelledStore exampleFile (1 / 2) = [personDetection]
   \<and> personDetection \<in> set (detectObjects unlabelledStore exampleFile (1 / 2))
   \<and> (\<exists>img. file_image exampleFile = Some img
        \<and> 0 \<le> det_x personDetection \<and> 0 \<le> det_y personDetection
        \<and> det_x personDetection + det_width personDetection \<le> of_nat (cv_width img)
        \<and> det_y personDetection + det_height personDetection \<le> of_nat (cv_height img)
        \<and> 0 < det_width personDetection \<and> 0 < det_height personDetection
        \<and> 1 / 2 \<le> det_confidence personDetection)"
proof -
  have ev: "detectObjects unlabelledStore exampleFile (1 / 2) = [personDetection]"
    by (simp add: unlabelledStore_def detectObjects_def toDetection_def Let_def example_eval string_eval)
  then have mem: "personDetection \<in> set (detectObjects unlabelledStore exampleFile (1 / 2))"
    by simp
  from detectObjects_within_image [OF mem] ev mem show ?thesis
    by blast
qed

section \<open>Detecting again keeps the operator's label\<close>

lemma handleRedetect_images:
  "images (handleRedetect st)
     = (case model st of None \<Rightarrow> images st | Some m \<Rightarrow> map (redetectImage st) (images st))"
  by (cases "model st") (simp_all add: handleRedetect_def)

lemma redetectImage_activityLabel: "activityLabel (redetectImage st img) = activityLabel img"
  by (simp add: redetectImage_def Let_def)

lemma redetect_labels: "map activityLabel (images (handleRedetect st)) = map activityLabel (images st)"
  by (cases "model st") (simp_all add: handleRedetect_images comp_def redetectImage_activityLabel)

lemma redetectImage_detections:
  "trim (case activityLabel img of None \<Rightarrow> [] | Some a \<Rightarrow> a) \<noteq> [] \<Longrightarrow>
   detections (redetectImage st img)
     = map (\<lambda>d. if toLowerCase (det_label d) = str ''person''
                 then d\<lparr>det_label := trim (case activityLabel img of None \<Rightarrow> [] | Some a \<Rightarrow> a)\<rparr>
                 else d)
         (detectObjects st (img_file img) (confidenceThreshold st))"
  by (simp add: redetectImage_def Let_def)

text \<open>
  Claim C4, as stated, fails on a frame whose activity label is not empty but blank: the
  label \<open>'' ''\<close> is trimmed to the empty string, the guard \<open>if (keepLabel)\<close> is not taken, and
  the person detection keeps the generic name \<open>Person\<close>.
\<close>

theorem redetect_blank_label_counterexample:
  "activityLabel (images blankStore ! 0) = Some (str '' '')
   \<and> str '' '' \<noteq> []
   \<and> model blankStore = Some personModel
   \<and> activityLabel (images (handleRedetect blankStore) ! 0) = Some (str '' '')
   \<and> detections (images (handleRedetect blankStore) ! 0) = [personDetection]
   \<and> det_label personDetection = str ''Person''"
proof -
  have a1: "activityLabel (images blankStore ! 0) = Some (str '' '')"
    by (simp add: blankStore_def example_eval)
  have a2: "str '' '' \<noteq> []"
    by (simp add: str_def)
  have a3: "model blankStore = Some personModel"
    by (simp add: blankStore_def example_eval)
  have a4: "activityLabel (images (handleRedetect blankStore) ! 0) = Some (str '' '')"
    by (simp add: blankStore_def handleRedetect_def redetectImage_def Let_def example_eval)
  have a5: "detections (images (handleRedetect blankStore) ! 0) = [personDetection]"
    by (simp add: blankStore_def handleRedetect_def redetectImage_def detectObjects_def
          toDetection_def Let_def example_eval string_eval)
  have a6: "det_label personDetection = str ''Person''"
    by (simp add: personDetection_def)
  from a1 a2 a3 a4 a5 a6 show ?thesis
    by (intro conjI)
qed

text \<open>
  Claim C4, amended.  \<open>handleRedetect\<close> never changes the activity label of a stored frame.
  When it runs (the detector is loaded) and the activity label of a frame is not blank,
  that is, not empty after trimming white space, every freshly detected box whose label is
  the person class carries the trimmed activity label, and every other box is kept as
  detected.
\<close>

theorem redetect_keeps_label:
  "map activityLabel (images (handleRedetect st)) = map activityLabel (images st)
   \<and> (model st \<noteq> None \<longrightarrow> i < length (images st) \<longrightarrow>
        trim (case activityLabel (images st ! i) of None \<Rightarrow> [] | Some a \<Rightarrow> a) \<noteq> [] \<longrightarrow>
        list_all2
          (\<lambda>d d'. (toLowerCase (det_label d) = str ''person'' \<longrightarrow>
                      d' = d\<lparr>det_label :=
                              trim (case activityLabel (images st ! i) of None \<Rightarrow> [] | Some a \<Rightarrow> a)\<rparr>)
                 \<and> (toLowerCase (det_label d) \<noteq> str ''person'' \<longrightarrow> d' = d))
          (detectObjects st (img_file (images st ! i)) (confidenceThreshold st))
          (detections (images (handleRedetect st) ! i)))"
proof -
  have "list_all2
          (\<lambda>d d'. (toLowerCase (det_label d) = str ''person'' \<longrightarrow>
                      d' = d\<lparr>det_label :=
                              trim (case activityLabel (images st ! i) of None \<Rightarrow> [] | Some a \<Rightarrow> a)\<rparr>)
                 \<and> (toLowerCase (det_label d) \<noteq> str ''person'' \<longrightarrow> d' = d))
          (detectObjects st (img_file (images st ! i)) (confidenceThreshold st))
          (detections (images (handleRedetect st) ! i))"
    if m: "model st \<noteq> None" and i: "i < length (images st)"
      and t: "trim (case activityLabel (images st ! i) of None \<Rightarrow> [] | Some a \<Rightarrow> a) \<noteq> []"
  proof -
    from m i have "images (handleRedetect st) ! i = redetectImage st (images st ! i)"
      by (cases "model st") (simp_all add: handleRedetect_images)
    then show ?thesis
      by (simp add: redetectImage_detections[OF t] list_all2_map2 list_all2_refl)
  qed
  with redetect_labels show ?thesis
    by blast
qed

theorem redetect_keeps_label_witness:
  "model weldingStore = Some personModel
   \<and> 0 < length (images weldingStore)
   \<and> trim (case activityLabel (images weldingStore ! 0) of None \<Rightarrow> [] | Some a \<Rightarrow> a) = str ''Welding''
   \<and> detectObjects weldingStore (img_file (images weldingStore ! 0)) (confidenceThreshold weldingStore)
       = [personDetection]
   \<and> toLowerCase (det_label personDetection) = str ''person''
   \<and> map activityLabel (images (handleRedetect weldingStore)) = [Some (str ''Welding'')]
   \<and> detections (images (handleRedetect weldingStore) ! 0)
       = [personDetection\<lparr>det_label := str ''Welding''\<rparr>]"
proof -
  have m: "model weldingStore = Some personModel"
    by (simp add: weldingStore_def exampleState_def)
  then have m': "model weldingStore \<noteq> None"
    by simp
  have l: "0 < length (images weldingStore)"
    by (simp add: weldingStore_def exampleState_def)
  have t: "trim (case activityLabel (images weldingStore ! 0) of None \<Rightarrow> [] | Some a \<Rightarrow> a)
      = str ''Welding''"
    by (simp add: weldingStore_def example_eval string_eval)
  have ne: "str ''Welding'' \<noteq> []"
    by (simp add: str_def)
  have d: "detectObjects weldingStore (img_file (images weldingStore ! 0))
      (confidenceThreshold weldingStore) = [personDetection]"
    by (simp add: weldingStore_def detectObjects_def toDetection_def Let_def example_eval string_eval)
  have p: "toLowerCase (det_label personDetection) = str ''person''"
    by (simp add: example_eval string_eval)
  have a: "map activityLabel (images weldingStore) = [Some (str ''Welding'')]"
    by (simp add: weldingStore_def exampleState_def exampleImage_def)
  note inst = redetect_keeps_label [of weldingStore 0]
  from inst have keep: "map activityLabel (images (handleRedetect weldingStore))
      = map activityLabel (images weldingStore)"
    by (rule conjunct1)
  from ne have tne: "trim (case activityLabel (images weldingStore ! 0) of None \<Rightarrow> [] | Some a \<Rightarrow> a) \<noteq> []"
    by (simp only: t simp_thms)
  from inst [THEN conjunct2, rule_format, OF m' l tne]
  have rel: "list_all2
          (\<lambda>d d'. (toLowerCase (det_label d) = str ''person'' \<longrightarrow> d' = d\<lparr>det_label := str ''Welding''\<rparr>)
                 \<and> (toLowerCase (det_label d) \<noteq> str ''person'' \<longrightarrow> d' = d))
          [personDetection] (detections (images (handleRedetect weldingStore) ! 0))"
    by (simp only: d t)
  then obtain d' where one: "detections (images (handleRedetect weldingStore) ! 0) = [d']"
    and rd: "toLowerCase (det_label personDetection) = str ''person'' \<longrightarrow>
               d' = personDetection\<lparr>det_label := str ''Welding''\<rparr>"
    by (auto simp only: list_all2_Cons1 list_all2_Nil)
  from rd p have "d' = personDetection\<lparr>det_label := str ''Welding''\<rparr>"
    by (rule mp)
  with one have res: "detections (images (handleRedetect weldingStore) ! 0)
      = [personDetection\<lparr>det_label := str ''Welding''\<rparr>]"
    by (simp only:)
  from keep a have keep': "map activityLabel (images (handleRedetect weldingStore)) = [Some (str ''Welding'')]"
    by (simp only:)
  from m l t d p keep' res show ?thesis
    by (intro conjI)
qed

section \<open>The fallback label is never a detector class\<close>

lemma fallbackLabel_Some:
  "fallbackLabel dets = Some l \<Longrightarrow>
     l \<noteq> [] \<and> toLowerCase l \<notin> cocoLabels \<and> (\<exists>d\<in>set dets. trim (det_label d) = l)"
  by (induction dets) (auto simp: Let_def split: if_splits)

lemma fallbackLabel_None:
  "fallbackLabel dets = None \<longleftrightarrow>
     (\<forall>d\<in>set dets. trim (det_label d) = [] \<or> toLowerCase (trim (det_label d)) \<in> cocoLabels)"
  by (induction dets) (auto simp: Let_def split: if_splits)

lemma cocoLabels_card: "card cocoLabels = 80"
  by (simp add: cocoLabels_def cocoLabelNames_def str_def toLowerCase_def toLowerUnit_def)

lemma toLower_toUpper: "toLowerUnit (toUpperUnit u) = toLowerUnit u"
  by (auto simp: toLowerUnit_def toUpperUnit_def)

lemma toLowerCase_capitalize: "toLowerCase (capitalize s) = toLowerCase s"
  by (cases s) (simp_all add: toLowerCase_def capitalize_def toLower_toUpper)

lemma trim_id:
  assumes "s \<noteq> []" and "\<not> isWhiteSpace (hd s)" and "\<not> isWhiteSpace (last s)"
  shows "trim s = s"
proof -
  from assms have a: "dropWhile isWhiteSpace s = s"
    by (cases s) simp_all
  from assms have "rev s \<noteq> []" and "\<not> isWhiteSpace (hd (rev s))"
    by (simp_all add: hd_rev)
  then have "dropWhile isWhiteSpace (rev s) = rev s"
    by (cases "rev s") simp_all
  with a show ?thesis
    by (simp add: trim_def)
qed

lemma cocoLabelNames_shape:
  "\<forall>c\<in>set cocoLabelNames. capitalize (str c) \<noteq> []
     \<and> \<not> isWhiteSpace (hd (capitalize (str c))) \<and> \<not> isWhiteSpace (last (capitalize (str c)))"
  by (simp add: cocoLabelNames_def str_def capitalize_def toUpperUnit_def isWhiteSpace_def)

lemma example_welding_not_class: "toLowerCase (str ''Welding'') \<notin> cocoLabels"
  by (simp add: cocoLabels_def cocoLabelNames_def str_def toLowerCase_def toLowerUnit_def)

lemma example_person_class: "''person'' \<in> set cocoLabelNames"
  by (simp add: cocoLabelNames_def)

lemma example_capitalize: "capitalize (str ''person'') = str ''Person''"
  by (simp add: string_eval)

lemma example_trim_welding: "trim (str ''Welding'') = str ''Welding''"
  by (simp add: string_eval)

text \<open>
  Claim C10.  When a frame has no activity label of its own, its export label is taken
  from its detections, and a detection label is compared with the 80 detector class names
  after both sides are put in lower case.  So a label that is a class name in any
  capitalisation is never chosen: a chosen label is not blank, is the trimmed label of one
  of the detections, and its lower-case form is outside the class list; no label is chosen
  exactly when every detection label is blank or a class name.  The capitalised form that
  the detector adapter produces from a class name, such as \<open>Person\<close>, is a class name in
  this sense.
\<close>

theorem fallback_label_not_detector_class:
  "(trim (case activityLabel img of None \<Rightarrow> [] | Some a \<Rightarrow> a) = [] \<longrightarrow>
      getCustomLabel img = fallbackLabel (detections img))
   \<and> (fallbackLabel dets = Some l \<longrightarrow>
        l \<noteq> [] \<and> toLowerCase l \<notin> cocoLabels \<and> (\<exists>d\<in>set dets. trim (det_label d) = l))
   \<and> (fallbackLabel dets = None \<longleftrightarrow>
        (\<forall>d\<in>set dets. trim (det_label d) = [] \<or> toLowerCase (trim (det_label d)) \<in> cocoLabels))
   \<and> (\<forall>c\<in>set cocoLabelNames. toLowerCase (str c) \<in> cocoLabels
        \<and> toLowerCase (trim (capitalize (str c))) \<in> cocoLabels)
   \<and> card cocoLabels = 80"
proof -
  have a: "trim (case activityLabel img of None \<Rightarrow> [] | Some a \<Rightarrow> a) = [] \<longrightarrow>
      getCustomLabel img = fallbackLabel (detections img)"
    by (simp add: getCustomLabel_def Let_def)
  have b: "fallbackLabel dets = Some l \<longrightarrow>
        l \<noteq> [] \<and> toLowerCase l \<notin> cocoLabels \<and> (\<exists>d\<in>set dets. trim (det_label d) = l)"
    using fallbackLabel_Some by blast
  have c: "\<forall>c\<in>set cocoLabelNames. toLowerCase (str c) \<in> cocoLabels
        \<and> toLowerCase (trim (capitalize (str c))) \<in> cocoLabels"
  proof
    fix c assume c: "c \<in> set cocoLabelNames"
    then have "toLowerCase (str c) \<in> cocoLabels"
      by (auto simp: cocoLabels_def)
    moreover from c cocoLabelNames_shape
    have "trim (capitalize (str c)) = capitalize (str c)"
      by (intro trim_id) blast+
    then have "toLowerCase (trim (capitalize (str c))) = toLowerCase (str c)"
      by (simp only: toLowerCase_capitalize)
    ultimately show "toLowerCase (str c) \<in> cocoLabels
        \<and> toLowerCase (trim (capitalize (str c))) \<in> cocoLabels"
      by simp
  qed
  from a b c fallbackLabel_None [of dets] cocoLabels_card show ?thesis
    by blast
qed

theorem fallback_label_not_detector_class_witness:
  "getCustomLabel (exampleImage None ''clipA'') = None
   \<and> fallbackLabel [personDetection, personDetection\<lparr>det_label := str ''Welding''\<rparr>]
       = Some (str ''Welding'')
   \<and> toLowerCase (str ''Welding'') \<notin> cocoLabels
   \<and> toLowerCase (trim (str ''Person'')) \<in> cocoLabels"
proof -
  note inst = fallback_label_not_detector_class
    [of "exampleImage None ''clipA''"
        "[personDetection, personDetection\<lparr>det_label := str ''Welding''\<rparr>]"
        "str ''Welding''"]
  from inst example_person_class
  have p: "toLowerCase (trim (capitalize (str ''person''))) \<in> cocoLabels"
    by blast
  then have p': "toLowerCase (trim (str ''Person'')) \<in> cocoLabels"
    by (simp only: example_capitalize)
  have d: "detections (exampleImage None ''clipA'') = [personDetection]"
    by (simp add: exampleImage_def personDetection_def)
  have l: "det_label personDetection = str ''Person''"
    by (simp add: personDetection_def)
  have n: "fallbackLabel [personDetection] = None"
    using p' l by (simp add: Let_def)
  have a: "trim (case activityLabel (exampleImage None ''clipA'') of None \<Rightarrow> [] | Some a \<Rightarrow> a) = []"
    by (simp add: exampleImage_def trim_def)
  from inst a have "getCustomLabel (exampleImage None ''clipA'')
      = fallbackLabel (detections (exampleImage None ''clipA''))"
    by blast
  with d n have g: "getCustomLabel (exampleImage None ''clipA'') = None"
    by simp
  have f: "fallbackLabel [personDetection, personDetection\<lparr>det_label := str ''Welding''\<rparr>]
       = Some (str ''Welding'')"
    using p' l example_welding_not_class example_trim_welding
    by (simp add: Let_def str_def)
  from inst f have w: "toLowerCase (str ''Welding'') \<notin> cocoLabels"
    by blast
  from g f w p' show ?thesis
    by blast
qed

section \<open>Flagging blurred frames\<close>


































section \<open>Exporting clips\<close>

lemma frameChunksOf_nonempty: "frames \<noteq> [] \<Longrightarrow> frameChunksOf frames \<noteq> []"
  by (subst frameChunksOf.simps) simp

lemma enumerate_offsets:
  "map (\<lambda>x. f (n + fst x + 1)) (enumerate 0 xs) = map f [n + 1 ..< n + length xs + 1]"
proof -
  have "map f (map (\<lambda>x. n + fst x + 1) (enumerate 0 xs)) = map f [n + 1 ..< n + length xs + 1]"
    by (simp only: enumerate_numbers)
  then show ?thesis
    by (simp only: map_map comp_def)
qed

lemma exportClips_numbers:
  "map ec_clipNumber (fst (exportClips lbl safeLabel off byClip n clipKeys))
     = map (jsAdd off) [n + 1 ..< snd (exportClips lbl safeLabel off byClip n clipKeys) + 1]
   \<and> n \<le> snd (exportClips lbl safeLabel off byClip n clipKeys)"
proof (induction clipKeys arbitrary: n)
  case Nil
  show ?case by simp
next
  case (Cons k ks)
  let ?frames = "case map_of byClip k of None \<Rightarrow> [] | Some fs \<Rightarrow> fs"
  show ?case
  proof (cases "?frames = []")
    case True
    with Cons[of n] show ?thesis by simp
  next
    case False
    let ?m = "length (frameChunksOf ?frames)"
    have here: "map ec_clipNumber (map (\<lambda>(chunkIndex, chunkFrames).
          exportChunk lbl safeLabel k (jsAdd off (n + chunkIndex + 1)) chunkFrames)
        (enumerate 0 (frameChunksOf ?frames))) = map (jsAdd off) [n + 1 ..< (n + ?m) + 1]"
      using enumerate_offsets[of "jsAdd off" n "frameChunksOf ?frames"]
      by (simp add: exportChunk_def Let_def case_prod_beta comp_def)
    from Cons[of "n + ?m"] have rest:
      "map ec_clipNumber (fst (exportClips lbl safeLabel off byClip (n + ?m) ks))
         = map (jsAdd off) [(n + ?m) + 1 ..< snd (exportClips lbl safeLabel off byClip (n + ?m) ks) + 1]"
      and le: "n + ?m \<le> snd (exportClips lbl safeLabel off byClip (n + ?m) ks)"
      by simp_all
    have "[n + 1 ..< (n + ?m) + 1] @ [(n + ?m) + 1 ..< snd (exportClips lbl safeLabel off byClip (n + ?m) ks) + 1]
        = [n + 1 ..< snd (exportClips lbl safeLabel off byClip (n + ?m) ks) + 1]"
      using le by (intro upt_append_upt) simp_all
    then have "map (jsAdd off) [n + 1 ..< (n + ?m) + 1]
        @ map (jsAdd off) [(n + ?m) + 1 ..< snd (exportClips lbl safeLabel off byClip (n + ?m) ks) + 1]
        = map (jsAdd off) [n + 1 ..< snd (exportClips lbl safeLabel off byClip (n + ?m) ks) + 1]"
      by (simp only: map_append[symmetric])
    with False here rest le show ?thesis
      by (simp add: Let_def)
  qed
qed


lemma exportClips_label:
  "c \<in> set (fst (exportClips lbl safeLabel off byClip n clipKeys)) \<Longrightarrow>
     \<exists>k num fs. c = exportChunk lbl safeLabel k num fs"
proof (induction clipKeys arbitrary: n)
  case Nil
  then show ?case by simp
next
  case (Cons k ks)
  then show ?case
    by (auto simp: Let_def split: if_splits)
qed

lemma exportChunk_label [simp]: "ec_label (exportChunk lbl safeLabel k num fs) = lbl"
  by (simp add: exportChunk_def Let_def)

lemma exportClips_filter_same:
  "filter (\<lambda>c. ec_label c = lbl) (fst (exportClips lbl safeLabel off byClip n clipKeys))
     = fst (exportClips lbl safeLabel off byClip n clipKeys)"
  by (rule filter_True) (auto dest: exportClips_label)

lemma exportClips_filter_other:
  "l \<noteq> lbl \<Longrightarrow> filter (\<lambda>c. ec_label c = l) (fst (exportClips lbl safeLabel off byClip n clipKeys)) = []"
  by (auto simp: filter_empty_conv dest: exportClips_label)

lemma setProperty_same:
  "setProperty obj key v key = (if obj key = None \<and> key = str ''__proto__'' then None else Some v)"
  by (simp add: setProperty_def split: option.splits)

lemma setProperty_other: "key' \<noteq> key \<Longrightarrow> setProperty obj key v key' = obj key'"
  by (auto simp: setProperty_def split: option.splits)

lemma counterOf_cong: "counters' l = counters l \<Longrightarrow> counterOf counters' l = counterOf counters l"
  by (simp add: counterOf_def getProperty_def)

text \<open>
  The ordinals that the loop over the labels gives to one label \<open>l\<close>, and the own property
  of \<open>l\<close> in the registry afterwards, for every registry: the ordinals are the value read
  for \<open>l\<close> plus 1, plus 2, and so on, and the value written is that value plus their number.
\<close>

lemma exportLabels_ordinals:
  assumes "distinct (map fst byLabel)"
  shows "\<exists>k. map ec_clipNumber (filter (\<lambda>c. ec_label c = l) (fst (exportLabels cmp counters byLabel)))
               = map (jsAdd (counterOf counters l)) [1 ..< k + 1]
           \<and> snd (exportLabels cmp counters byLabel) l
               = (if l \<in> fst ` set byLabel
                  then setProperty counters l (jsAdd (counterOf counters l) k) l else counters l)
           \<and> (l \<notin> fst ` set byLabel \<longrightarrow> k = 0)"
  using assms
proof (induction byLabel arbitrary: counters)
  case Nil
  show ?case by simp
next
  case (Cons p byLabel)
  obtain lbl byClip where p: "p = (lbl, byClip)" by (cases p)
  let ?off = "counterOf counters lbl"
  let ?cur = "exportClips lbl (toSafePathSegment lbl) ?off byClip 0 (sortBy cmp (map fst byClip))"
  let ?counters' = "setProperty counters lbl (jsAdd ?off (snd ?cur))"
  let ?rest = "exportLabels cmp ?counters' byLabel"
  from Cons.prems p have notin: "lbl \<notin> fst ` set byLabel" and dist: "distinct (map fst byLabel)"
    by auto
  have unfold: "exportLabels cmp counters (p # byLabel) = (fst ?cur @ fst ?rest, snd ?rest)"
    by (simp add: p Let_def)
  from Cons.IH[OF dist, of ?counters'] obtain k where
    IH1: "map ec_clipNumber (filter (\<lambda>c. ec_label c = l) (fst ?rest))
            = map (jsAdd (counterOf ?counters' l)) [1 ..< k + 1]"
    and IH2: "snd ?rest l = (if l \<in> fst ` set byLabel
                then setProperty ?counters' l (jsAdd (counterOf ?counters' l) k) l else ?counters' l)"
    and IH3: "l \<notin> fst ` set byLabel \<longrightarrow> k = 0"
    by blast
  show ?case
  proof (cases "l = lbl")
    case True
    with notin IH3 have k0: "k = 0" by simp
    with IH1 have rest_empty: "filter (\<lambda>c. ec_label c = l) (fst ?rest) = []"
      by simp
    from IH2 True notin have rest_counter: "snd ?rest l = ?counters' l"
      by simp
    have cur_all: "filter (\<lambda>c. ec_label c = l) (fst ?cur) = fst ?cur"
      using True exportClips_filter_same by simp
    have nums: "map ec_clipNumber (fst ?cur) = map (jsAdd ?off) [1 ..< snd ?cur + 1]"
      using exportClips_numbers[of lbl "toSafePathSegment lbl" ?off byClip 0]
      by (simp del: upt_Suc)
    have flt: "filter (\<lambda>c. ec_label c = l) (fst (exportLabels cmp counters (p # byLabel))) = fst ?cur"
      by (simp only: unfold fst_conv filter_append cur_all rest_empty append_Nil2)
    have ctr: "snd (exportLabels cmp counters (p # byLabel)) l = ?counters' l"
      using rest_counter by (simp only: unfold snd_conv)
    have mem: "l \<in> fst ` set (p # byLabel)"
      using True p by simp
    have "map ec_clipNumber (filter (\<lambda>c. ec_label c = l) (fst (exportLabels cmp counters (p # byLabel))))
            = map (jsAdd (counterOf counters l)) [1 ..< snd ?cur + 1]
        \<and> snd (exportLabels cmp counters (p # byLabel)) l
            = (if l \<in> fst ` set (p # byLabel)
               then setProperty counters l (jsAdd (counterOf counters l) (snd ?cur)) l else counters l)
        \<and> (l \<notin> fst ` set (p # byLabel) \<longrightarrow> snd ?cur = 0)"
    proof -
      have nums': "map ec_clipNumber (fst ?cur) = map (jsAdd (counterOf counters l)) [1 ..< snd ?cur + 1]"
        using nums True by (simp only:)
      have ctr': "snd (exportLabels cmp counters (p # byLabel)) l
          = setProperty counters l (jsAdd (counterOf counters l) (snd ?cur)) l"
        using ctr True by (simp only:)
      show ?thesis
        by (simp only: flt mem nums' ctr' if_True simp_thms)
    qed
    then show ?thesis by blast
  next
    case False
    have cur_none: "filter (\<lambda>c. ec_label c = l) (fst ?cur) = []"
      using False exportClips_filter_other by simp
    have own: "?counters' l = counters l"
      using False by (simp add: setProperty_other)
    have same: "counterOf ?counters' l = counterOf counters l"
      using own by (rule counterOf_cong)
    have upd: "setProperty ?counters' l v l = setProperty counters l v l" for v
      by (simp only: setProperty_same own)
    have flt: "filter (\<lambda>c. ec_label c = l) (fst (exportLabels cmp counters (p # byLabel)))
        = filter (\<lambda>c. ec_label c = l) (fst ?rest)"
      by (simp only: unfold fst_conv filter_append cur_none append_Nil)
    have ctr: "snd (exportLabels cmp counters (p # byLabel)) l = snd ?rest l"
      by (simp only: unfold snd_conv)
    have mem: "l \<in> fst ` set (p # byLabel) \<longleftrightarrow> l \<in> fst ` set byLabel"
      using False p by auto
    have "map ec_clipNumber (filter (\<lambda>c. ec_label c = l) (fst (exportLabels cmp counters (p # byLabel))))
            = map (jsAdd (counterOf counters l)) [1 ..< k + 1]
        \<and> snd (exportLabels cmp counters (p # byLabel)) l
            = (if l \<in> fst ` set (p # byLabel)
               then setProperty counters l (jsAdd (counterOf counters l) k) l else counters l)
        \<and> (l \<notin> fst ` set (p # byLabel) \<longrightarrow> k = 0)"
      using IH1 IH2 IH3 by (simp only: flt ctr mem same own upd simp_thms)
    then show ?thesis by blast
  qed
qed


lemma pushByLabel_keys:
  "map fst (pushByLabel l k img byLabel)
     = (if l \<in> set (map fst byLabel) then map fst byLabel else map fst byLabel @ [l])"
  by (induction byLabel) force+

lemma groupStep_distinct:
  "distinct (map fst (fst acc)) \<Longrightarrow> distinct (map fst (fst (groupStep b acc img)))"
  by (cases acc) (auto simp: groupStep_def Let_def pushByLabel_keys split: option.splits)

lemma foldl_groupStep_distinct:
  "distinct (map fst (fst acc)) \<Longrightarrow> distinct (map fst (fst (foldl (groupStep b) acc imgs)))"
  by (induction imgs arbitrary: acc) (simp_all add: groupStep_distinct)

lemma export_first:
  assumes "handleExportAnnotatedClips cmp st = (Inr out, st')"
  shows "\<exists>exported. ordinalsOf l out
           = map (jsAdd (counterOf (labelClipCounters st) l)) [1 ..< length (ordinalsOf l out) + 1]
       \<and> labelClipCounters st' l
           = (if exported
              then setProperty (labelClipCounters st) l
                     (jsAdd (counterOf (labelClipCounters st) l) (length (ordinalsOf l out))) l
              else labelClipCounters st l)
       \<and> (\<not> exported \<longrightarrow> ordinalsOf l out = [])"
proof -
  let ?grouped = "foldl (groupStep (exportOnlyLabeled st)) ([], []) (imagesToExport st)"
  let ?byLabel = "map (\<lambda>(lbl, byClip). (lbl, map (\<lambda>(k, frames). (k, sortFrames cmp frames)) byClip))
                    (fst ?grouped)"
  let ?c = "counterOf (labelClipCounters st) l"
  from assms have ne: "imagesToExport st \<noteq> []"
    by (auto simp: handleExportAnnotatedClips_def)
  with assms have out: "out_clips out = fst (exportLabels cmp (labelClipCounters st) ?byLabel)"
    and st': "labelClipCounters st' = snd (exportLabels cmp (labelClipCounters st) ?byLabel)"
    by (auto simp: handleExportAnnotatedClips_def Let_def)
  have keys: "map fst ?byLabel = map fst (fst ?grouped)"
    by (simp add: case_prod_beta comp_def)
  have "distinct (map fst (fst ?grouped))"
    by (rule foldl_groupStep_distinct) simp
  with keys have "distinct (map fst ?byLabel)"
    by (simp only:)
  from exportLabels_ordinals[OF this, where l = l and cmp = cmp and counters = "labelClipCounters st"]
  obtain k where
    k1: "ordinalsOf l out = map (jsAdd ?c) [1 ..< k + 1]"
    and k2: "labelClipCounters st' l = (if l \<in> fst ` set ?byLabel
               then setProperty (labelClipCounters st) l (jsAdd ?c k) l else labelClipCounters st l)"
    and k3: "l \<notin> fst ` set ?byLabel \<longrightarrow> k = 0"
    unfolding ordinalsOf_def out st' by blast
  from k1 have len: "length (ordinalsOf l out) = k"
    by simp
  from k1 k3 have "l \<notin> fst ` set ?byLabel \<longrightarrow> ordinalsOf l out = []"
    by simp
  with k1 k2 len show ?thesis
    by (intro exI[of _ "l \<in> fst ` set ?byLabel"]) (simp only: simp_thms)
qed

text \<open>
  For a label whose value read from the registry is a number, the ordinals of an export
  are that number plus 1 and upwards without a gap, the registry afterwards holds the
  number plus the count of new clip folders, and a second export that starts from that
  registry continues the run.
\<close>

lemma export_numeric_counter:
  assumes "handleExportAnnotatedClips cmp st = (Inr out, st')"
    and "counterOf (labelClipCounters st) l = JsNumber c"
  shows "ordinalsOf l out = map JsNumber [c + 1 ..< c + 1 + length (ordinalsOf l out)]
       \<and> counterOf (labelClipCounters st') l = JsNumber (c + length (ordinalsOf l out))"
proof -
  let ?k = "length (ordinalsOf l out)"
  from export_first[OF assms(1), of l] obtain exported where
    o: "ordinalsOf l out = map (jsAdd (counterOf (labelClipCounters st) l)) [1 ..< ?k + 1]"
    and r: "labelClipCounters st' l
           = (if exported
              then setProperty (labelClipCounters st) l
                     (jsAdd (counterOf (labelClipCounters st) l) ?k) l
              else labelClipCounters st l)"
    and e: "\<not> exported \<longrightarrow> ordinalsOf l out = []"
    by blast
  have shift: "map (\<lambda>i. c + i) [1 ..< k + 1] = [c + 1 ..< c + 1 + k]" for k
    by (induction k) simp_all
  have "map (jsAdd (JsNumber c)) [1 ..< ?k + 1] = map JsNumber (map (\<lambda>i. c + i) [1 ..< ?k + 1])"
    by simp
  also have "map (\<lambda>i. c + i) [1 ..< ?k + 1] = [c + 1 ..< c + 1 + ?k]"
    by (rule shift)
  finally have ords: "ordinalsOf l out = map JsNumber [c + 1 ..< c + 1 + ?k]"
    using o by (simp only: assms(2))
  have own: "\<not> (labelClipCounters st l = None \<and> l = str ''__proto__'')"
    using assms(2) by (auto simp: counterOf_def getProperty_def objectPrototype_def)
  have "counterOf (labelClipCounters st') l = JsNumber (c + ?k)"
  proof (cases exported)
    case True
    with r own have "labelClipCounters st' l = Some (JsNumber (c + ?k))"
      by (simp add: setProperty_same assms(2))
    then show ?thesis
      by (simp add: counterOf_def getProperty_def)
  next
    case False
    with e have k0: "?k = 0" by simp
    from False r have "labelClipCounters st' l = labelClipCounters st l" by simp
    then have "counterOf (labelClipCounters st') l = counterOf (labelClipCounters st) l"
      by (rule counterOf_cong)
    with k0 assms(2) show ?thesis by simp
  qed
  with ords show ?thesis by blast
qed

lemma export_numeric_counter_continues:
  assumes "handleExportAnnotatedClips cmp st = (Inr out, st')"
    and "counterOf (labelClipCounters st) l = JsNumber c"
    and "handleExportAnnotatedClips cmp2 st2 = (Inr out2, st3)"
    and "labelClipCounters st2 = labelClipCounters st'"
  shows "ordinalsOf l out @ ordinalsOf l out2
           = map JsNumber [c + 1 ..< c + 1 + length (ordinalsOf l out) + length (ordinalsOf l out2)]
       \<and> set (ordinalsOf l out) \<inter> set (ordinalsOf l out2) = {}
       \<and> (ordinalsOf l out \<noteq> [] \<longrightarrow> ordinalsOf l out2 \<noteq> [] \<longrightarrow>
             hd (ordinalsOf l out2) = JsNumber (c + length (ordinalsOf l out) + 1)
           \<and> last (ordinalsOf l out) = JsNumber (c + length (ordinalsOf l out)))"
proof -
  let ?a = "ordinalsOf l out"
  let ?b = "ordinalsOf l out2"
  from export_numeric_counter[OF assms(1,2)]
  have a: "?a = map JsNumber [c + 1 ..< c + 1 + length ?a]"
    and c': "counterOf (labelClipCounters st') l = JsNumber (c + length ?a)"
    by blast+
  from c' assms(4) have "counterOf (labelClipCounters st2) l = JsNumber (c + length ?a)"
    by simp
  from export_numeric_counter[OF assms(3) this]
  have b: "?b = map JsNumber [c + length ?a + 1 ..< c + length ?a + 1 + length ?b]"
    by blast
  have "[c + 1 ..< c + 1 + length ?a] @ [c + length ?a + 1 ..< c + length ?a + 1 + length ?b]
      = [c + 1 ..< c + 1 + length ?a + length ?b]"
    by (simp add: upt_append_upt add.assoc add.left_commute add.commute del: upt_Suc)
  then have app: "?a @ ?b = map JsNumber [c + 1 ..< c + 1 + length ?a + length ?b]"
    by (subst a, subst b) (simp only: map_append[symmetric])
  have "distinct (?a @ ?b)"
    by (subst app) (simp add: distinct_map inj_on_def)
  then have disj: "set ?a \<inter> set ?b = {}"
    by simp
  have hdlast: "hd ?b = JsNumber (c + length ?a + 1) \<and> last ?a = JsNumber (c + length ?a)"
    if "?a \<noteq> []" "?b \<noteq> []"
  proof -
    from that have la: "0 < length ?a" and lb: "0 < length ?b" by simp_all
    have "last ?a = last (map JsNumber [c + 1 ..< c + 1 + length ?a])" using a by simp
    also have "\<dots> = JsNumber (c + length ?a)"
      using la by (simp del: upt_Suc add: last_map last_upt)
    finally have l: "last ?a = JsNumber (c + length ?a)" .
    have "hd ?b = hd (map JsNumber [c + length ?a + 1 ..< c + length ?a + 1 + length ?b])"
      using b by simp
    also have "\<dots> = JsNumber (c + length ?a + 1)"
      using lb by (simp del: upt_Suc add: hd_map hd_upt)
    finally show ?thesis using l by simp
  qed
  from app disj hdlast show ?thesis by blast
qed

text \<open>The export of the example store, for any registry.\<close>

lemma example_custom_labels:
  "getCustomLabel weldingA = Some (str ''Welding'')"
  "getCustomLabel weldingB = Some (str ''Welding'')"
  "getCustomLabel (exampleImage None clip) = None"
  by (simp_all add: weldingA_def weldingB_def getCustomLabel_def Let_def example_eval string_eval
        cocoLabels_def cocoLabelNames_def)

lemma example_clip_keys:
  "clipKeyOf weldingA = str ''clipA''" "clipKeyOf weldingB = str ''clipB''"
  "str ''clipB'' \<noteq> str ''clipA''" "str ''Welding'' \<noteq> []"
  "compareUnits (str ''clipA'') (str ''clipB'') = - 1"
  by (simp_all add: weldingA_def weldingB_def clipKeyOf_def Let_def example_eval string_eval)

lemma example_safe_label: "toSafePathSegment (str ''Welding'') = str ''Welding''"
  by (simp add: toSafePathSegment_def replaceAll_def removeSuffixCI_def Let_def string_eval)

lemma frameChunksOf_single: "frameChunksOf [img] = [[img]]"
  by (subst frameChunksOf.simps, subst frameChunksOf.simps) (simp add: MAX_FRAMES_PER_CLIP_def)

lemma example_images_to_export: "imagesToExport (exportStore counters) = [weldingA, weldingB]"
  by (simp add: imagesToExport_def exportStore_def exampleState_def example_custom_labels)

lemma example_export:
  "handleExportAnnotatedClips compareUnits (exportStore counters)
     = (Inr (exportedWelding (counterOf counters (str ''Welding''))),
        exportStore (setProperty counters (str ''Welding'')
                       (jsAdd (counterOf counters (str ''Welding'')) 2)))"
proof -
  have grouped: "groupStep True (groupStep True ([], []) weldingA) weldingB
      = ([(str ''Welding'', [(str ''clipA'', [weldingA]), (str ''clipB'', [weldingB])])], [])"
    by (simp add: groupStep_def Let_def example_custom_labels example_clip_keys)
  have only: "exportOnlyLabeled (exportStore counters)" "labelClipCounters (exportStore counters) = counters"
    by (simp_all add: exportStore_def exampleState_def)
  have upd: "(exportStore counters)\<lparr>labelClipCounters := c'\<rparr> = exportStore c'" for c'
    by (simp add: exportStore_def)
  show ?thesis
    by (simp add: handleExportAnnotatedClips_def example_images_to_export only grouped upd
          Let_def sortFrames_def sortBy_def example_clip_keys example_safe_label
          frameChunksOf_single exportedWelding_def numeral_2_eq_2[symmetric])
qed


lemma example_welding_counter:
  "counterOf Map.empty (str ''Welding'') = JsNumber 0"
  "setProperty Map.empty (str ''Welding'') v = [str ''Welding'' \<mapsto> v]"
  by (simp_all add: counterOf_def getProperty_def objectPrototype_def setProperty_def string_eval)

lemma exportChunk_clipNumber [simp]: "ec_clipNumber (exportChunk lbl safeLabel k num fs) = num"
  by (simp add: exportChunk_def Let_def)

lemma example_zip_paths:
  "ec_files (exportChunk (str ''Welding'') (str ''Welding'') (str ''clipA'') (JsNumber 1) [weldingA])
     = [([str ''Welding'', str ''Welding01'', str ''frames00001.jpg''], JpgBlob (img_file weldingA)),
        ([str ''Welding labeld'', str ''Welding01'', str ''frames00001.json''],
         JsonText (frameDataOf (str ''Welding'') (str ''clipA'') (str ''Welding01'') weldingA))]"
  by (simp add: exportChunk_def Let_def)
     (simp add: pad2_def toSafePathSegment_def replaceAll_def removeSuffixCI_def Let_def string_eval)

lemma example_proto_labels:
  "getCustomLabel protoA = Some (str ''__proto__'')"
  "getCustomLabel protoB = Some (str ''__proto__'')"
  "clipKeyOf protoA = str ''clipA''" "clipKeyOf protoB = str ''clipB''"
  "str ''__proto__'' \<noteq> []"
  by (simp_all add: protoA_def protoB_def getCustomLabel_def clipKeyOf_def Let_def example_eval
        string_eval)

lemma example_proto_safe_label: "toSafePathSegment (str ''__proto__'') = str ''__proto__''"
  by (simp add: toSafePathSegment_def replaceAll_def removeSuffixCI_def Let_def string_eval)

lemma example_proto_counter:
  "counterOf Map.empty (str ''__proto__'') = JsObject (str ''[object Object]'')"
  "jsAdd (JsObject (str ''[object Object]'')) 1 = JsString (str ''[object Object]1'')"
  "jsAdd (JsObject (str ''[object Object]'')) 2 = JsString (str ''[object Object]2'')"
  "setProperty Map.empty (str ''__proto__'') v = Map.empty"
  by (simp_all add: counterOf_def getProperty_def objectPrototype_def setProperty_def string_eval)

lemma example_proto_folders:
  "ec_clipFolderName (exportChunk (str ''__proto__'') (str ''__proto__'') k
       (JsString (str ''[object Object]1'')) fs) = str ''__proto__[object Object]1''"
  "ec_clipFolderName (exportChunk (str ''__proto__'') (str ''__proto__'') k
       (JsString (str ''[object Object]2'')) fs) = str ''__proto__[object Object]2''"
  by (simp_all add: exportChunk_def Let_def pad2_def string_eval)

lemma example_proto_export:
  "handleExportAnnotatedClips compareUnits protoStore = (Inr protoExport, protoStore)"
proof -
  have imgs: "imagesToExport protoStore = [protoA, protoB]"
    by (simp add: imagesToExport_def protoStore_def exampleState_def example_proto_labels)
  have grouped: "groupStep True (groupStep True ([], []) protoA) protoB
      = ([(str ''__proto__'', [(str ''clipA'', [protoA]), (str ''clipB'', [protoB])])], [])"
    by (simp add: groupStep_def Let_def example_proto_labels example_clip_keys)
  have only: "exportOnlyLabeled protoStore" "labelClipCounters protoStore = Map.empty"
    by (simp_all add: protoStore_def exampleState_def)
  have upd: "protoStore\<lparr>labelClipCounters := Map.empty\<rparr> = protoStore"
    by (simp add: protoStore_def exampleState_def)
  have one: "jsAdd (JsObject (str ''[object Object]'')) (Suc 0) = JsString (str ''[object Object]1'')"
    using example_proto_counter(2) by (simp only: One_nat_def)
  have two: "jsAdd (JsObject (str ''[object Object]'')) (Suc (Suc 0)) = JsString (str ''[object Object]2'')"
    using example_proto_counter(3) by (simp only: numeral_2_eq_2)
  show ?thesis
    by (simp add: handleExportAnnotatedClips_def imgs only grouped upd
          Let_def sortFrames_def sortBy_def example_clip_keys example_proto_safe_label
          frameChunksOf_single protoExport_def example_proto_counter(1,4) one two
          del: jsAdd.simps)
qed

text \<open>
  Claim C1.  The claim does not hold of the code for a label that is the name of a member
  which the registry, a plain JavaScript object, inherits, such as \<open>__proto__\<close>.  With an empty
  registry, the value read for the label \<open>__proto__\<close> is an object, not 0: the two clip
  folders get the ordinals \<open>[object Object]1\<close> and \<open>[object Object]2\<close>, which are strings,
  the write of the new counter has no effect, and the registry after the export is the
  registry before it.  A second export therefore gives the same two ordinals again.
\<close>

theorem export_proto_label_repeats_ordinals:
  "labelClipCounters protoStore (str ''__proto__'') = None
   \<and> counterOf (labelClipCounters protoStore) (str ''__proto__'') = JsObject (str ''[object Object]'')
   \<and> handleExportAnnotatedClips compareUnits protoStore = (Inr protoExport, protoStore)
   \<and> ordinalsOf (str ''__proto__'') protoExport
       = [JsString (str ''[object Object]1''), JsString (str ''[object Object]2'')]
   \<and> map ec_clipFolderName (out_clips protoExport)
       = [str ''__proto__[object Object]1'', str ''__proto__[object Object]2'']
   \<and> labelClipCounters (snd (handleExportAnnotatedClips compareUnits protoStore)) (str ''__proto__'')
       = None
   \<and> handleExportAnnotatedClips compareUnits (snd (handleExportAnnotatedClips compareUnits protoStore))
       = (Inr protoExport, protoStore)"
proof -
  have c: "labelClipCounters protoStore = Map.empty"
    by (simp add: protoStore_def exampleState_def)
  have o: "ordinalsOf (str ''__proto__'') protoExport
       = [JsString (str ''[object Object]1''), JsString (str ''[object Object]2'')]"
    by (simp add: ordinalsOf_def protoExport_def)
  have f: "map ec_clipFolderName (out_clips protoExport)
       = [str ''__proto__[object Object]1'', str ''__proto__[object Object]2'']"
    by (simp add: protoExport_def example_proto_folders)
  from c o f example_proto_export example_proto_counter(1) show ?thesis
    by simp
qed

text \<open>
  Claim C2.  When no frame qualifies for export, after the filter of the only-labelled
  flag, the export fails with \<open>NothingToExport\<close> and the whole state, with it the registry of
  clip counters, is left as it was.
\<close>

theorem export_nothing_leaves_registry:
  assumes "length (imagesToExport st) = 0"
  shows "handleExportAnnotatedClips cmp st = (Inl NothingToExport, st)
       \<and> labelClipCounters (snd (handleExportAnnotatedClips cmp st)) = labelClipCounters st"
  using assms by (simp add: handleExportAnnotatedClips_def)

theorem export_nothing_leaves_registry_witness:
  "exportOnlyLabeled noLabelStore
   \<and> length (images noLabelStore) = 1
   \<and> length (imagesToExport noLabelStore) = 0
   \<and> handleExportAnnotatedClips compareUnits noLabelStore = (Inl NothingToExport, noLabelStore)
   \<and> labelClipCounters (snd (handleExportAnnotatedClips compareUnits noLabelStore)) (str ''Welding'') = Some (JsNumber 2)"
proof -
  have a: "exportOnlyLabeled noLabelStore" "length (images noLabelStore) = 1"
    by (simp_all add: noLabelStore_def unlabelledStore_def exampleState_def)
  have b: "length (imagesToExport noLabelStore) = 0"
    by (simp add: imagesToExport_def noLabelStore_def unlabelledStore_def exampleState_def
          example_custom_labels)
  note r = export_nothing_leaves_registry [OF b, of compareUnits]
  from r have r1: "handleExportAnnotatedClips compareUnits noLabelStore = (Inl NothingToExport, noLabelStore)"
    by (rule conjunct1)
  from r have "labelClipCounters (snd (handleExportAnnotatedClips compareUnits noLabelStore))
      = labelClipCounters noLabelStore"
    by (rule conjunct2)
  then have r2: "labelClipCounters (snd (handleExportAnnotatedClips compareUnits noLabelStore)) (str ''Welding'') = Some (JsNumber 2)"
    by (simp add: noLabelStore_def)
  from a b r1 r2 show ?thesis
    by (intro conjI)
qed

lemma exportChunk_json:
  assumes "(path, JsonText fd) \<in> set (ec_files (exportChunk lbl safeLabel k num fs))"
  shows "fd_activityLabel fd = lbl \<and> fd_clipFolder fd = safeLabel @ pad2 num
       \<and> (\<exists>nm. path = [safeLabel @ str '' labeld'', toSafePathSegment (safeLabel @ pad2 num), nm])"
  using assms by (auto simp: exportChunk_def Let_def frameDataOf_def)

lemma exportLabels_clip:
  "c \<in> set (fst (exportLabels cmp counters byLabel)) \<Longrightarrow>
     \<exists>lbl\<in>fst ` set byLabel. \<exists>k num fs. c = exportChunk lbl (toSafePathSegment lbl) k num fs"
proof (induction byLabel arbitrary: counters)
  case Nil
  then show ?case by simp
next
  case (Cons p byLabel)
  obtain lbl byClip where p: "p = (lbl, byClip)" by (cases p)
  let ?cur = "exportClips lbl (toSafePathSegment lbl) (counterOf counters lbl) byClip 0
                (sortBy cmp (map fst byClip))"
  let ?rest = "exportLabels cmp
                 (setProperty counters lbl (jsAdd (counterOf counters lbl) (snd ?cur))) byLabel"
  from Cons.prems p consider (cur) "c \<in> set (fst ?cur)" | (rest) "c \<in> set (fst ?rest)"
    by (auto simp: Let_def)
  then show ?case
  proof cases
    case cur
    from exportClips_label[OF cur] p show ?thesis
      by auto
  next
    case rest
    from Cons.IH[OF rest] show ?thesis
      by auto
  qed
qed

lemma pushByLabel_key_set: "fst ` set (pushByLabel l k img byLabel) = insert l (fst ` set byLabel)"
proof -
  have "set (map fst (pushByLabel l k img byLabel)) = insert l (set (map fst byLabel))"
    by (simp only: pushByLabel_keys) auto
  then show ?thesis
    by (simp only: set_map)
qed

lemma foldl_groupStep_keys_nonempty:
  "[] \<notin> fst ` set (fst acc) \<Longrightarrow> [] \<notin> fst ` set (fst (foldl (groupStep b) acc imgs))"
proof (induction imgs arbitrary: acc)
  case Nil
  then show ?case by simp
next
  case (Cons img imgs)
  from Cons.prems have "[] \<notin> fst ` set (fst (groupStep b acc img))"
    by (cases acc) (auto simp: groupStep_def Let_def pushByLabel_key_set split: option.splits)
  from Cons.IH[OF this] show ?case
    by simp
qed

text \<open>
  Claim C8.  Every JSON descriptor that an export writes carries an activity label that is
  not empty, and it lies in the folder of that label: the descriptor belongs to a clip folder
  record of the same label, its \<open>clipFolder\<close> field is the sanitised label followed by the
  clip ordinal, and its path is the sanitised label with the suffix \<open>labeld\<close>, then the
  sanitised clip folder name, then the file name.  This holds whether or not the
  only-labelled flag is set; unlabelled frames get no descriptor.
\<close>

theorem export_json_label_matches_folder:
  assumes "handleExportAnnotatedClips cmp st = (Inr out, st')"
    and "(path, JsonText fd) \<in> set (zipEntries out)"
  shows "fd_activityLabel fd \<noteq> []
       \<and> (\<exists>c\<in>set (out_clips out). fd_activityLabel fd = ec_label c
            \<and> fd_clipFolder fd = toSafePathSegment (fd_activityLabel fd) @ pad2 (ec_clipNumber c)
            \<and> (\<exists>nm. path = [toSafePathSegment (fd_activityLabel fd) @ str '' labeld'',
                             toSafePathSegment (fd_clipFolder fd), nm]))"
proof -
  let ?grouped = "foldl (groupStep (exportOnlyLabeled st)) ([], []) (imagesToExport st)"
  let ?byLabel = "map (\<lambda>(lbl, byClip). (lbl, map (\<lambda>(k, frames). (k, sortFrames cmp frames)) byClip))
                    (fst ?grouped)"
  let ?unl = "map (\<lambda>(k, frames). (k, sortFrames cmp frames)) (snd ?grouped)"
  from assms(1) have ne: "length (imagesToExport st) \<noteq> 0"
    by (auto simp: handleExportAnnotatedClips_def)
  with assms(1) have clips: "out_clips out = fst (exportLabels cmp (labelClipCounters st) ?byLabel)"
    and unl: "out_unlabeled out = (if exportOnlyLabeled st then [] else exportUnlabeled cmp ?unl)"
    by (auto simp: handleExportAnnotatedClips_def Let_def)
  have "(path, JsonText fd) \<notin> set (out_unlabeled out)"
    by (auto simp: unl exportUnlabeled_def Let_def)
  with assms(2) obtain c where c: "c \<in> set (out_clips out)"
    and mem: "(path, JsonText fd) \<in> set (ec_files c)"
    by (auto simp: zipEntries_def)
  from c clips have "c \<in> set (fst (exportLabels cmp (labelClipCounters st) ?byLabel))"
    by (simp only:)
  from exportLabels_clip[OF this]
  obtain lbl k num fs where lbl: "lbl \<in> fst ` set ?byLabel"
    and ceq: "c = exportChunk lbl (toSafePathSegment lbl) k num fs"
    by blast
  have keys: "fst ` set ?byLabel = fst ` set (fst ?grouped)"
    by force
  have "[] \<notin> fst ` set (fst ?grouped)"
    by (rule foldl_groupStep_keys_nonempty) simp
  with lbl keys have nonempty: "lbl \<noteq> []"
    by metis
  from mem ceq exportChunk_json[of path fd lbl "toSafePathSegment lbl" k num fs]
  have j: "fd_activityLabel fd = lbl" "fd_clipFolder fd = toSafePathSegment lbl @ pad2 num"
    "\<exists>nm. path = [toSafePathSegment lbl @ str '' labeld'',
                   toSafePathSegment (toSafePathSegment lbl @ pad2 num), nm]"
    by simp_all
  have cl: "ec_label c = lbl" "ec_clipNumber c = num"
    by (simp_all add: ceq exportChunk_def Let_def)
  have "fd_activityLabel fd \<noteq> [] \<and> fd_activityLabel fd = ec_label c
      \<and> fd_clipFolder fd = toSafePathSegment (fd_activityLabel fd) @ pad2 (ec_clipNumber c)
      \<and> (\<exists>nm. path = [toSafePathSegment (fd_activityLabel fd) @ str '' labeld'',
                       toSafePathSegment (fd_clipFolder fd), nm])"
    using nonempty j cl by auto
  with c show ?thesis
    by blast
qed

theorem export_json_label_matches_folder_witness:
  "exportOnlyLabeled (exportStore Map.empty)
   \<and> handleExportAnnotatedClips compareUnits (exportStore Map.empty)
       = (Inr (exportedWelding (JsNumber 0)), exportStore [str ''Welding'' \<mapsto> JsNumber 2])
   \<and> ([str ''Welding labeld'', str ''Welding01'', str ''frames00001.json''],
       JsonText (frameDataOf (str ''Welding'') (str ''clipA'') (str ''Welding01'') weldingA))
       \<in> set (zipEntries (exportedWelding (JsNumber 0)))
   \<and> fd_activityLabel (frameDataOf (str ''Welding'') (str ''clipA'') (str ''Welding01'') weldingA)
       = str ''Welding''
   \<and> fd_activityLabel (frameDataOf (str ''Welding'') (str ''clipA'') (str ''Welding01'') weldingA)
       \<noteq> []"
proof -
  let ?W = "str ''Welding''"
  let ?fd = "frameDataOf ?W (str ''clipA'') (str ''Welding01'') weldingA"
  let ?path = "[str ''Welding labeld'', str ''Welding01'', str ''frames00001.json'']"
  have o: "exportOnlyLabeled (exportStore Map.empty)"
    by (simp add: exportStore_def exampleState_def)
  have e: "handleExportAnnotatedClips compareUnits (exportStore Map.empty)
     = (Inr (exportedWelding (JsNumber 0)), exportStore [?W \<mapsto> JsNumber 2])"
    by (simp add: example_export example_welding_counter eval_nat_numeral)
  have "(?path, JsonText ?fd)
      \<in> set (ec_files (exportChunk ?W ?W (str ''clipA'') (JsNumber 1) [weldingA]))"
    by (simp only: example_zip_paths) simp
  then have m: "(?path, JsonText ?fd) \<in> set (zipEntries (exportedWelding (JsNumber 0)))"
    by (simp add: zipEntries_def exportedWelding_def)
  have l: "fd_activityLabel ?fd = ?W"
    by (simp add: frameDataOf_def Let_def)
  from export_json_label_matches_folder [OF e m]
  have n: "fd_activityLabel ?fd \<noteq> []"
    by (rule conjunct1)
  from o e m l n show ?thesis
    by (intro conjI)
qed

section \<open>Splitting long clips\<close>

lemma ceilDiv_upper:
  assumes "0 < b"
  shows "a \<le> ceilDiv a b * b"
proof -
  let ?x = "(of_nat a :: rat) / of_nat b"
  have x0: "0 \<le> ?x" by simp
  from assms have "(of_nat a :: rat) \<le> of_int \<lceil>?x\<rceil> * of_nat b"
    by (intro ceiling_divide_upper) simp
  also have "of_int \<lceil>?x\<rceil> = (of_nat (ceilDiv a b) :: rat)"
    using x0 by (simp add: ceilDiv_def)
  finally have "(of_nat a :: rat) \<le> of_nat (ceilDiv a b * b)"
    by simp
  then show ?thesis
    by (simp only: of_nat_le_iff)
qed

lemma ceilDiv_lower:
  assumes "0 < b" and "0 < a"
  shows "0 < ceilDiv a b \<and> (ceilDiv a b - 1) * b < a"
proof -
  let ?x = "(of_nat a :: rat) / of_nat b"
  have x0: "0 < ?x" using assms by simp
  then have pos: "0 < ceilDiv a b" by (simp add: ceilDiv_def)
  from assms have "(of_int \<lceil>?x\<rceil> - 1) * of_nat b < (of_nat a :: rat)"
    by (intro ceiling_divide_lower) simp
  also have "of_int \<lceil>?x\<rceil> = (of_nat (ceilDiv a b) :: rat)"
    using x0 by (simp add: ceilDiv_def)
  also have "(of_nat (ceilDiv a b) :: rat) - 1 = of_nat (ceilDiv a b - 1)"
    using pos by (simp add: of_nat_diff)
  finally have "(of_nat ((ceilDiv a b - 1) * b) :: rat) < of_nat a"
    by simp
  then have "(ceilDiv a b - 1) * b < a"
    by (simp only: of_nat_less_iff)
  with pos show ?thesis by simp
qed

lemma splitIntoClips_over:
  "MAX_FRAMES_PER_CLIP < length allFrames \<Longrightarrow>
   splitIntoClips clipBase src allFrames
     = map (splitPart clipBase src allFrames
              (ceilDiv (length allFrames) (ceilDiv (length allFrames) MAX_FRAMES_PER_CLIP)))
         [0..<ceilDiv (length allFrames) MAX_FRAMES_PER_CLIP]"
  by (simp add: splitIntoClips_def Let_def)

lemma splitPart_files:
  "map cf_file (mclip_frames (splitPart clipBase src allFrames cs i))
     = take cs (drop (i * cs) (map cf_file allFrames))"
proof -
  have "map cf_file (map (\<lambda>(idx, f). f\<lparr>cf_frameNumber := idx + 1\<rparr>) (enumerate 0 xs)) = map cf_file xs" for xs :: "ClipFrame list"
    by (rule nth_equalityI) (simp_all add: nth_enumerate_eq)
  then show ?thesis
    by (simp add: splitPart_def Let_def slice_def take_map drop_map min_def)
qed

lemma splitPart_numbers:
  "map cf_frameNumber (mclip_frames (splitPart clipBase src allFrames cs i))
     = [1 ..< length (mclip_frames (splitPart clipBase src allFrames cs i)) + 1]"
  using enumerate_numbers[of 0 "slice (i * cs) (min (i * cs + cs) (length allFrames)) allFrames"]
  by (simp add: splitPart_def Let_def comp_def case_prod_beta del: upt_Suc)

lemma splitPart_length:
  "length (mclip_frames (splitPart clipBase src allFrames cs i))
     = min (i * cs + cs) (length allFrames) - i * cs"
  by (simp add: splitPart_def Let_def slice_def)


lemma split_arith:
  assumes "MAX_FRAMES_PER_CLIP < n"
    and k_def: "k = ceilDiv n MAX_FRAMES_PER_CLIP"
    and cs_def: "cs = ceilDiv n k"
  shows "0 < k" "(k - 1) * MAX_FRAMES_PER_CLIP < n" "n \<le> k * MAX_FRAMES_PER_CLIP"
    "0 < cs" "cs \<le> MAX_FRAMES_PER_CLIP" "(k - 1) * cs < n" "n \<le> k * cs" "k * cs \<le> n + (k - 1)"
proof -
  have M: "0 < MAX_FRAMES_PER_CLIP" by (simp add: MAX_FRAMES_PER_CLIP_def)
  from assms(1) have n: "0 < n" by simp
  from ceilDiv_lower[OF M n] show k: "0 < k" and kl: "(k - 1) * MAX_FRAMES_PER_CLIP < n"
    by (simp_all add: k_def)
  from ceilDiv_upper[OF M, of n] show ku: "n \<le> k * MAX_FRAMES_PER_CLIP"
    by (simp add: k_def)
  from ceilDiv_lower[OF k n] have c: "0 < cs" and cl: "(cs - 1) * k < n"
    by (simp_all add: cs_def)
  show "0 < cs" by (rule c)
  from ceilDiv_upper[OF k, of n] show cu: "n \<le> k * cs"
    by (simp add: cs_def mult.commute)
  show c200: "cs \<le> MAX_FRAMES_PER_CLIP"
  proof (rule ccontr)
    assume "\<not> cs \<le> MAX_FRAMES_PER_CLIP"
    then have "MAX_FRAMES_PER_CLIP \<le> cs - 1" by simp
    then have "MAX_FRAMES_PER_CLIP * k \<le> (cs - 1) * k" by (rule mult_le_mono1)
    with ku cl show False by (simp add: mult.commute)
  qed
  have "(k - 1) * cs \<le> (k - 1) * MAX_FRAMES_PER_CLIP"
    using c200 by (rule mult_le_mono2)
  then show "(k - 1) * cs < n" using kl by (rule le_less_trans)
  have "k * cs = (cs - 1) * k + k"
    using c by (cases cs) (simp_all add: mult.commute)
  with cl k show "k * cs \<le> n + (k - 1)" by simp
qed

text \<open>The parts into which \<open>splitIntoClips\<close> cuts a list of more than 200 frames.\<close>

lemma splitIntoClips_parts:
  assumes "MAX_FRAMES_PER_CLIP < length allFrames"
  shows "let parts = splitIntoClips clipBase src allFrames;
             k = ceilDiv (length allFrames) MAX_FRAMES_PER_CLIP;
             cs = ceilDiv (length allFrames) k
         in length parts = k
          \<and> (k - 1) * MAX_FRAMES_PER_CLIP < length allFrames
          \<and> length allFrames \<le> k * MAX_FRAMES_PER_CLIP
          \<and> cs \<le> MAX_FRAMES_PER_CLIP
          \<and> (\<forall>i<k. mclip_name (parts ! i) = clipBase @ str ''_part'' @ showNat (i + 1)
                \<and> map cf_frameNumber (mclip_frames (parts ! i))
                    = [1 ..< length (mclip_frames (parts ! i)) + 1]
                \<and> mclip_frames (parts ! i) \<noteq> []
                \<and> length (mclip_frames (parts ! i)) \<le> cs
                \<and> cs \<le> length (mclip_frames (parts ! i)) + (k - 1)
                \<and> (i < k - 1 \<longrightarrow> length (mclip_frames (parts ! i)) = cs))
          \<and> distinct (map mclip_name parts)
          \<and> concat (map (\<lambda>p. map cf_file (mclip_frames p)) parts) = map cf_file allFrames"
proof -
  define n where "n = length allFrames"
  define k where "k = ceilDiv n MAX_FRAMES_PER_CLIP"
  define cs where "cs = ceilDiv n k"
  define parts where "parts = splitIntoClips clipBase src allFrames"
  from assms have nbig: "MAX_FRAMES_PER_CLIP < n" by (simp add: n_def)
  note ar = split_arith[OF nbig k_def cs_def]
  have parts: "parts = map (splitPart clipBase src allFrames cs) [0..<k]"
    unfolding parts_def cs_def k_def n_def by (rule splitIntoClips_over[OF assms])
  have len: "length parts = k" by (simp add: parts)
  have nth: "parts ! i = splitPart clipBase src allFrames cs i" if "i < k" for i
    using that by (simp add: parts)
  have plen: "length (mclip_frames (parts ! i)) = min (i * cs + cs) n - i * cs" if "i < k" for i
    using that by (simp add: nth splitPart_length n_def)
  have each: "mclip_name (parts ! i) = clipBase @ str ''_part'' @ showNat (i + 1)
                \<and> map cf_frameNumber (mclip_frames (parts ! i))
                    = [1 ..< length (mclip_frames (parts ! i)) + 1]
                \<and> mclip_frames (parts ! i) \<noteq> []
                \<and> length (mclip_frames (parts ! i)) \<le> cs
                \<and> cs \<le> length (mclip_frames (parts ! i)) + (k - 1)
                \<and> (i < k - 1 \<longrightarrow> length (mclip_frames (parts ! i)) = cs)" if i: "i < k" for i
  proof -
    have name: "mclip_name (parts ! i) = clipBase @ str ''_part'' @ showNat (i + 1)"
      by (simp add: nth[OF i] splitPart_def Let_def)
    have nums: "map cf_frameNumber (mclip_frames (parts ! i)) = [1 ..< length (mclip_frames (parts ! i)) + 1]"
      unfolding nth[OF i] by (rule splitPart_numbers)
    from i have "i \<le> k - 1" by simp
    then have "i * cs \<le> (k - 1) * cs" by (rule mult_le_mono1)
    then have start: "i * cs < n" using ar(6) by (rule le_less_trans)
    with ar(4) have pos: "0 < min (i * cs + cs) n - i * cs" by simp
    then have nonempty: "mclip_frames (parts ! i) \<noteq> []"
      using plen[OF i] by auto
    have le: "length (mclip_frames (parts ! i)) \<le> cs"
      using plen[OF i] by simp
    have "Suc i \<le> k" using i by simp
    then have "Suc i * cs \<le> k * cs" by (rule mult_le_mono1)
    then have "Suc i * cs \<le> n + (k - 1)" using ar(8) by (rule le_trans)
    then have "i * cs + cs \<le> n + (k - 1)" by (simp only: mult_Suc add.commute)
    moreover have "a + cs \<le> n + (k - 1) \<Longrightarrow> a < n \<Longrightarrow> cs \<le> min (a + cs) n - a + (k - 1)" for a :: nat
      by arith
    ultimately have "cs \<le> min (i * cs + cs) n - i * cs + (k - 1)"
      using start by blast
    then have rough: "cs \<le> length (mclip_frames (parts ! i)) + (k - 1)"
      by (simp only: plen[OF i])
    have full: "length (mclip_frames (parts ! i)) = cs" if "i < k - 1"
    proof -
      from that have "Suc i \<le> k - 1" by simp
      then have "Suc i * cs \<le> (k - 1) * cs" by (rule mult_le_mono1)
      then have "Suc i * cs < n" using ar(6) by (rule le_less_trans)
      then have "i * cs + cs < n" by (simp only: mult_Suc add.commute)
      then show ?thesis using plen[OF i] by simp
    qed
    from name nums nonempty le rough full show ?thesis by blast
  qed
  have names: "map mclip_name parts = map (\<lambda>i. clipBase @ str ''_part'' @ showNat (i + 1)) [0..<k]"
    by (simp add: parts splitPart_def Let_def comp_def)
  have "inj_on (\<lambda>i. clipBase @ str ''_part'' @ showNat (i + 1)) (set [0..<k])"
    by (rule inj_onI) (auto dest: showNat_inj)
  then have dist: "distinct (map mclip_name parts)"
    unfolding names by (simp add: distinct_map)
  have "concat (map (\<lambda>p. map cf_file (mclip_frames p)) parts)
      = concat (map (\<lambda>i. take cs (drop (i * cs) (map cf_file allFrames))) [0..<k])"
    by (simp add: parts comp_def splitPart_files)
  also have "\<dots> = take (k * cs) (map cf_file allFrames)"
    by (rule concat_take_chunks)
  also have "\<dots> = map cf_file allFrames"
    using ar(7) by (simp add: n_def)
  finally have cat: "concat (map (\<lambda>p. map cf_file (mclip_frames p)) parts) = map cf_file allFrames" .
  from len ar(2) ar(3) ar(5) each dist cat
  have "length parts = k
          \<and> (k - 1) * MAX_FRAMES_PER_CLIP < n
          \<and> n \<le> k * MAX_FRAMES_PER_CLIP
          \<and> cs \<le> MAX_FRAMES_PER_CLIP
          \<and> (\<forall>i<k. mclip_name (parts ! i) = clipBase @ str ''_part'' @ showNat (i + 1)
                \<and> map cf_frameNumber (mclip_frames (parts ! i))
                    = [1 ..< length (mclip_frames (parts ! i)) + 1]
                \<and> mclip_frames (parts ! i) \<noteq> []
                \<and> length (mclip_frames (parts ! i)) \<le> cs
                \<and> cs \<le> length (mclip_frames (parts ! i)) + (k - 1)
                \<and> (i < k - 1 \<longrightarrow> length (mclip_frames (parts ! i)) = cs))
          \<and> distinct (map mclip_name parts)
          \<and> concat (map (\<lambda>p. map cf_file (mclip_frames p)) parts) = map cf_file allFrames"
    by blast
  then show ?thesis
    unfolding Let_def parts_def cs_def k_def n_def .
qed

lemma frameTimesFrom_closed:
  "frameTimesFrom t e i = map (\<lambda>j. t + of_nat j * i) [0..<length (frameTimesFrom t e i)]"
proof (induction t e i rule: frameTimesFrom.induct)
  case (1 t e i)
  show ?case
  proof (cases "0 < i \<and> t < e")
    case False
    then show ?thesis
      by (subst (1 2) frameTimesFrom.simps) simp
  next
    case True
    let ?rest = "frameTimesFrom (t + i) e i"
    from True have unf: "frameTimesFrom t e i = t # ?rest"
      by (subst frameTimesFrom.simps) simp
    from 1 True have IH: "?rest = map (\<lambda>j. t + i + of_nat j * i) [0..<length ?rest]"
      by simp
    have "map (\<lambda>j. t + of_nat j * i) [0..<Suc (length ?rest)]
        = t # map (\<lambda>j. t + of_nat (Suc j) * i) [0..<length ?rest]"
      by (simp only: upt_conv_Cons[of 0] map_Suc_upt[symmetric] list.map map_map comp_def)
         (simp add: upt_conv_Cons)
    also have "map (\<lambda>j. t + of_nat (Suc j) * i) [0..<length ?rest] = ?rest"
      by (subst (2) IH) (simp add: algebra_simps)
    finally show ?thesis
      by (simp only: unf list.size length_Cons) simp
  qed
qed

lemma clipsOfMarkers_parts:
  "clipsOfMarkers video interval ms = Some clips \<Longrightarrow>
     \<exists>per. clips = concat per \<and> length per = length ms
        \<and> (\<forall>m<length ms. clipsOfMarker video interval (fst (ms ! m)) (snd (ms ! m)) = Some (per ! m))"
proof (induction ms arbitrary: clips)
  case Nil
  then show ?case by simp
next
  case (Cons p ms)
  obtain idx marker where p: "p = (idx, marker)" by (cases p)
  from Cons.prems p obtain cur others where
    cur: "clipsOfMarker video interval idx marker = Some cur"
    and others: "clipsOfMarkers video interval ms = Some others"
    and clips: "clips = cur @ others"
    by (auto split: option.splits)
  from Cons.IH[OF others] obtain per where per: "others = concat per" "length per = length ms"
    "\<forall>m<length ms. clipsOfMarker video interval (fst (ms ! m)) (snd (ms ! m)) = Some (per ! m)"
    by blast
  have "\<forall>m<length (p # ms). clipsOfMarker video interval (fst ((p # ms) ! m)) (snd ((p # ms) ! m))
      = Some ((cur # per) ! m)"
  proof (intro allI impI)
    fix m assume "m < length (p # ms)"
    then show "clipsOfMarker video interval (fst ((p # ms) ! m)) (snd ((p # ms) ! m))
      = Some ((cur # per) ! m)"
      using per(3) cur p by (cases m) simp_all
  qed
  with clips per(1,2) show ?case
    by (intro exI[of _ "cur # per"]) simp
qed

lemma clipsOfMarkers_total:
  "0 < interval \<Longrightarrow> \<exists>clips. clipsOfMarkers video interval ms = Some clips"
proof (induction ms)
  case Nil
  show ?case by simp
next
  case (Cons p ms)
  obtain idx marker where p: "p = (idx, marker)" by (cases p)
  from Cons obtain others where "clipsOfMarkers video interval ms = Some others"
    by blast
  moreover from Cons.prems obtain cur where "clipsOfMarker video interval idx marker = Some cur"
    by (auto simp: clipsOfMarker_def frameTimes_def)
  ultimately show ?case
    by (simp add: p)
qed

lemma clipsOfMarker_Some:
  assumes "clipsOfMarker video interval m marker = Some parts"
  shows "parts = splitIntoClips (markerClipBase m marker) (video_name video)
           (map (\<lambda>(frameIdx, time).
                    \<lparr>cf_file = \<lparr>file_name = padStart 5 48 (showNat (frameIdx + 1)) @ str ''.jpg'',
                                file_image = Some (video_frameAt video time)\<rparr>,
                     cf_frameNumber = frameIdx + 1\<rparr>)
               (enumerate 0 (frameTimesFrom (marker_startTime marker) (marker_endTime marker) interval)))"
  using assms by (auto simp: clipsOfMarker_def frameTimes_def split: option.splits if_splits)

lemma example_marker_sizes:
  "length (frameTimesFrom 0 201 1) = 201"
  "ceilDiv 201 MAX_FRAMES_PER_CLIP = 2"
  "ceilDiv 201 2 = 101"
  "MAX_FRAMES_PER_CLIP < 201"
  by code_simp+

lemma example_part_suffix: "showNat (0 + 1) = str ''1''" "showNat (1 + 1) = str ''2''"
  by (simp_all add: string_eval)

text \<open>
  Claim C3.  \<open>extractClipsFromMarkers\<close> (the editor with the cap of 200 frames) returns for
  every positive interval, and its clips are those of the markers, one marker after the
  other.  The frames of a marker are sampled at its start time and then at every interval
  before its end time.  When these are more than 200 frames, the marker gets \<open>k\<close>
  consecutive parts, where \<open>k\<close> is the least number of parts of at most 200 frames that
  hold all frames.  With \<open>cs\<close> the number of frames divided by \<open>k\<close>, rounded up: every
  part but the last has \<open>cs\<close> frames, and every part has at least one frame, at most
  \<open>cs\<close>, hence at most 200, and fewer than \<open>cs\<close> by less than \<open>k\<close>.  The frames of each
  part are numbered from 1 without a gap, part \<open>i\<close> (counted from 0) has the name of the
  marker's clip with the suffix \<open>_part\<close> and the number \<open>i + 1\<close>, the names are distinct,
  and the files of the parts, one part after the other, are the sampled frames of the marker
  in the order of their times.
\<close>

theorem extractClipsFromMarkers_splits_over_cap:
  "(0 < interval \<longrightarrow> 0 < length markers \<longrightarrow>
      (\<exists>clips. extractClipsFromMarkers (Some video) markers interval = ClipsCreated clips))
   \<and> (extractClipsFromMarkers (Some video) markers interval = ClipsCreated clips \<longrightarrow>
        (\<exists>perMarker. clips = concat perMarker \<and> length perMarker = length markers
           \<and> (\<forall>m<length markers.
                let marker = markers ! m;
                    ts = frameTimesFrom (marker_startTime marker) (marker_endTime marker) interval;
                    n = length ts;
                    parts = perMarker ! m;
                    k = ceilDiv n MAX_FRAMES_PER_CLIP;
                    cs = ceilDiv n k
                in ts = map (\<lambda>j. marker_startTime marker + of_nat j * interval) [0..<n]
                 \<and> (MAX_FRAMES_PER_CLIP < n \<longrightarrow>
                      length parts = k
                    \<and> (k - 1) * MAX_FRAMES_PER_CLIP < n
                    \<and> n \<le> k * MAX_FRAMES_PER_CLIP
                    \<and> cs \<le> MAX_FRAMES_PER_CLIP
                    \<and> (\<forall>i<k. mclip_name (parts ! i)
                                   = markerClipBase m marker @ str ''_part'' @ showNat (i + 1)
                          \<and> map cf_frameNumber (mclip_frames (parts ! i))
                              = [1 ..< length (mclip_frames (parts ! i)) + 1]
                          \<and> mclip_frames (parts ! i) \<noteq> []
                          \<and> length (mclip_frames (parts ! i)) \<le> cs
                          \<and> cs \<le> length (mclip_frames (parts ! i)) + (k - 1)
                          \<and> (i < k - 1 \<longrightarrow> length (mclip_frames (parts ! i)) = cs))
                    \<and> distinct (map mclip_name parts)
                    \<and> concat (map (\<lambda>p. map cf_file (mclip_frames p)) parts)
                        = map (\<lambda>(j, t). \<lparr>file_name = padStart 5 48 (showNat (j + 1)) @ str ''.jpg'',
                                           file_image = Some (video_frameAt video t)\<rparr>)
                            (enumerate 0 ts)))))"
  (is "?total \<and> (?ex \<longrightarrow> ?split)")
proof (intro conjI impI)
  assume "0 < interval" and "0 < length markers"
  with clipsOfMarkers_total[of interval video "enumerate 0 markers"]
  show "\<exists>clips. extractClipsFromMarkers (Some video) markers interval = ClipsCreated clips"
    by (auto simp: extractClipsFromMarkers_def)
next
  assume ex: "extractClipsFromMarkers (Some video) markers interval = ClipsCreated clips"
  then have "clipsOfMarkers video interval (enumerate 0 markers) = Some clips"
    by (auto simp: extractClipsFromMarkers_def split: if_splits option.splits)
  from clipsOfMarkers_parts[OF this] obtain per where per: "clips = concat per"
    "length per = length markers"
    and each: "\<forall>m<length markers. clipsOfMarker video interval (fst (enumerate 0 markers ! m))
        (snd (enumerate 0 markers ! m)) = Some (per ! m)"
    by auto
  have "let marker = markers ! m;
            ts = frameTimesFrom (marker_startTime marker) (marker_endTime marker) interval;
            n = length ts;
            parts = per ! m;
            k = ceilDiv n MAX_FRAMES_PER_CLIP;
            cs = ceilDiv n k
        in ts = map (\<lambda>j. marker_startTime marker + of_nat j * interval) [0..<n]
         \<and> (MAX_FRAMES_PER_CLIP < n \<longrightarrow>
              length parts = k
            \<and> (k - 1) * MAX_FRAMES_PER_CLIP < n
            \<and> n \<le> k * MAX_FRAMES_PER_CLIP
            \<and> cs \<le> MAX_FRAMES_PER_CLIP
            \<and> (\<forall>i<k. mclip_name (parts ! i)
                           = markerClipBase m marker @ str ''_part'' @ showNat (i + 1)
                  \<and> map cf_frameNumber (mclip_frames (parts ! i))
                      = [1 ..< length (mclip_frames (parts ! i)) + 1]
                  \<and> mclip_frames (parts ! i) \<noteq> []
                  \<and> length (mclip_frames (parts ! i)) \<le> cs
                  \<and> cs \<le> length (mclip_frames (parts ! i)) + (k - 1)
                  \<and> (i < k - 1 \<longrightarrow> length (mclip_frames (parts ! i)) = cs))
            \<and> distinct (map mclip_name parts)
            \<and> concat (map (\<lambda>p. map cf_file (mclip_frames p)) parts)
                = map (\<lambda>(j, t). \<lparr>file_name = padStart 5 48 (showNat (j + 1)) @ str ''.jpg'',
                                   file_image = Some (video_frameAt video t)\<rparr>)
                    (enumerate 0 ts))" if m: "m < length markers" for m
  proof -
    let ?marker = "markers ! m"
    let ?ts = "frameTimesFrom (marker_startTime ?marker) (marker_endTime ?marker) interval"
    let ?frames = "map (\<lambda>(frameIdx, time).
                    \<lparr>cf_file = \<lparr>file_name = padStart 5 48 (showNat (frameIdx + 1)) @ str ''.jpg'',
                                file_image = Some (video_frameAt video time)\<rparr>,
                     cf_frameNumber = frameIdx + 1\<rparr>) (enumerate 0 ?ts)"
    from each m have "clipsOfMarker video interval m ?marker = Some (per ! m)"
      by (simp add: nth_enumerate_eq)
    from clipsOfMarker_Some[OF this]
    have parts: "per ! m = splitIntoClips (markerClipBase m ?marker) (video_name video) ?frames" .
    have len: "length ?frames = length ?ts"
      by simp
    have files: "map cf_file ?frames
        = map (\<lambda>(j, t). \<lparr>file_name = padStart 5 48 (showNat (j + 1)) @ str ''.jpg'',
                           file_image = Some (video_frameAt video t)\<rparr>) (enumerate 0 ?ts)"
      by (simp add: case_prod_beta comp_def)
    have closed: "?ts = map (\<lambda>j. marker_startTime ?marker + of_nat j * interval) [0..<length ?ts]"
      by (rule frameTimesFrom_closed)
    have over: "length (per ! m) = ceilDiv (length ?ts) MAX_FRAMES_PER_CLIP
            \<and> (ceilDiv (length ?ts) MAX_FRAMES_PER_CLIP - 1) * MAX_FRAMES_PER_CLIP < length ?ts
            \<and> length ?ts \<le> ceilDiv (length ?ts) MAX_FRAMES_PER_CLIP * MAX_FRAMES_PER_CLIP
            \<and> ceilDiv (length ?ts) (ceilDiv (length ?ts) MAX_FRAMES_PER_CLIP) \<le> MAX_FRAMES_PER_CLIP
            \<and> (\<forall>i<ceilDiv (length ?ts) MAX_FRAMES_PER_CLIP.
                  mclip_name (per ! m ! i) = markerClipBase m ?marker @ str ''_part'' @ showNat (i + 1)
                  \<and> map cf_frameNumber (mclip_frames (per ! m ! i))
                      = [1 ..< length (mclip_frames (per ! m ! i)) + 1]
                  \<and> mclip_frames (per ! m ! i) \<noteq> []
                  \<and> length (mclip_frames (per ! m ! i))
                      \<le> ceilDiv (length ?ts) (ceilDiv (length ?ts) MAX_FRAMES_PER_CLIP)
                  \<and> ceilDiv (length ?ts) (ceilDiv (length ?ts) MAX_FRAMES_PER_CLIP)
                      \<le> length (mclip_frames (per ! m ! i)) + (ceilDiv (length ?ts) MAX_FRAMES_PER_CLIP - 1)
                  \<and> (i < ceilDiv (length ?ts) MAX_FRAMES_PER_CLIP - 1 \<longrightarrow>
                       length (mclip_frames (per ! m ! i))
                         = ceilDiv (length ?ts) (ceilDiv (length ?ts) MAX_FRAMES_PER_CLIP)))
            \<and> distinct (map mclip_name (per ! m))
            \<and> concat (map (\<lambda>p. map cf_file (mclip_frames p)) (per ! m))
                = map (\<lambda>(j, t). \<lparr>file_name = padStart 5 48 (showNat (j + 1)) @ str ''.jpg'',
                                   file_image = Some (video_frameAt video t)\<rparr>) (enumerate 0 ?ts)"
      if big: "MAX_FRAMES_PER_CLIP < length ?ts"
    proof -
      from big have "MAX_FRAMES_PER_CLIP < length ?frames"
        by (simp only: len)
      from splitIntoClips_parts[OF this, of "markerClipBase m ?marker" "video_name video"]
      show ?thesis
        unfolding Let_def parts[symmetric] files len .
    qed
    from closed over show ?thesis
      unfolding Let_def by blast
  qed
  with per show ?split
    by blast
qed

theorem extractClipsFromMarkers_splits_over_cap_witness:
  "extractClipsFromMarkers (Some exampleVideo) [longMarker] 1 = ClipsCreated longMarkerClips
   \<and> length (frameTimesFrom (marker_startTime longMarker) (marker_endTime longMarker) 1) = 201
   \<and> length longMarkerClips = 2
   \<and> mclip_name (longMarkerClips ! 0) = markerClipBase 0 longMarker @ str ''_part'' @ str ''1''
   \<and> mclip_name (longMarkerClips ! 1) = markerClipBase 0 longMarker @ str ''_part'' @ str ''2''
   \<and> length (mclip_frames (longMarkerClips ! 0)) = 101
   \<and> map cf_frameNumber (mclip_frames (longMarkerClips ! 0)) = [1..<101 + 1]
   \<and> mclip_frames (longMarkerClips ! 1) \<noteq> []
   \<and> concat (map (\<lambda>p. map cf_file (mclip_frames p)) longMarkerClips)
       = map (\<lambda>(j, t). \<lparr>file_name = padStart 5 48 (showNat (j + 1)) @ str ''.jpg'',
                          file_image = Some (video_frameAt exampleVideo t)\<rparr>)
           (enumerate 0 (frameTimesFrom (marker_startTime longMarker) (marker_endTime longMarker) 1))"
proof -
  let ?ts = "frameTimesFrom (marker_startTime longMarker) (marker_endTime longMarker) 1"
  note inst = extractClipsFromMarkers_splits_over_cap
    [of 1 "[longMarker]" exampleVideo longMarkerClips]
  from inst have "\<exists>clips. extractClipsFromMarkers (Some exampleVideo) [longMarker] 1 = ClipsCreated clips"
    by simp
  then have ex: "extractClipsFromMarkers (Some exampleVideo) [longMarker] 1 = ClipsCreated longMarkerClips"
    by (auto simp: longMarkerClips_def)
  have n: "length ?ts = 201"
    by (simp add: longMarker_def example_marker_sizes(1))
  from inst ex obtain per where per: "longMarkerClips = concat per" "length per = length [longMarker]"
    and each: "\<forall>m<length [longMarker].
        let marker = [longMarker] ! m;
            ts = frameTimesFrom (marker_startTime marker) (marker_endTime marker) 1;
            n = length ts;
            parts = per ! m;
            k = ceilDiv n MAX_FRAMES_PER_CLIP;
            cs = ceilDiv n k
        in ts = map (\<lambda>j. marker_startTime marker + of_nat j * 1) [0..<n]
         \<and> (MAX_FRAMES_PER_CLIP < n \<longrightarrow>
              length parts = k
            \<and> (k - 1) * MAX_FRAMES_PER_CLIP < n
            \<and> n \<le> k * MAX_FRAMES_PER_CLIP
            \<and> cs \<le> MAX_FRAMES_PER_CLIP
            \<and> (\<forall>i<k. mclip_name (parts ! i)
                           = markerClipBase m marker @ str ''_part'' @ showNat (i + 1)
                  \<and> map cf_frameNumber (mclip_frames (parts ! i))
                      = [1 ..< length (mclip_frames (parts ! i)) + 1]
                  \<and> mclip_frames (parts ! i) \<noteq> []
                  \<and> length (mclip_frames (parts ! i)) \<le> cs
                  \<and> cs \<le> length (mclip_frames (parts ! i)) + (k - 1)
                  \<and> (i < k - 1 \<longrightarrow> length (mclip_frames (parts ! i)) = cs))
            \<and> distinct (map mclip_name parts)
            \<and> concat (map (\<lambda>p. map cf_file (mclip_frames p)) parts)
                = map (\<lambda>(j, t). \<lparr>file_name = padStart 5 48 (showNat (j + 1)) @ str ''.jpg'',
                                   file_image = Some (video_frameAt exampleVideo t)\<rparr>)
                    (enumerate 0 ts))"
    by blast
  from per(2) have "per = [per ! 0]"
    by (cases per) simp_all
  then have "concat per = per ! 0"
    by (metis concat.simps(1) concat.simps(2) append_Nil2)
  with per(1) have p0: "per ! 0 = longMarkerClips"
    by simp
  from each have "let marker = [longMarker] ! 0;
            ts = frameTimesFrom (marker_startTime marker) (marker_endTime marker) 1;
            n = length ts;
            parts = per ! 0;
            k = ceilDiv n MAX_FRAMES_PER_CLIP;
            cs = ceilDiv n k
        in ts = map (\<lambda>j. marker_startTime marker + of_nat j * 1) [0..<n]
         \<and> (MAX_FRAMES_PER_CLIP < n \<longrightarrow>
              length parts = k
            \<and> (k - 1) * MAX_FRAMES_PER_CLIP < n
            \<and> n \<le> k * MAX_FRAMES_PER_CLIP
            \<and> cs \<le> MAX_FRAMES_PER_CLIP
            \<and> (\<forall>i<k. mclip_name (parts ! i)
                           = markerClipBase 0 marker @ str ''_part'' @ showNat (i + 1)
                  \<and> map cf_frameNumber (mclip_frames (parts ! i))
                      = [1 ..< length (mclip_frames (parts ! i)) + 1]
                  \<and> mclip_frames (parts ! i) \<noteq> []
                  \<and> length (mclip_frames (parts ! i)) \<le> cs
                  \<and> cs \<le> length (mclip_frames (parts ! i)) + (k - 1)
                  \<and> (i < k - 1 \<longrightarrow> length (mclip_frames (parts ! i)) = cs))
            \<and> distinct (map mclip_name parts)
            \<and> concat (map (\<lambda>p. map cf_file (mclip_frames p)) parts)
                = map (\<lambda>(j, t). \<lparr>file_name = padStart 5 48 (showNat (j + 1)) @ str ''.jpg'',
                                   file_image = Some (video_frameAt exampleVideo t)\<rparr>)
                    (enumerate 0 ts))"
    by simp
  then have split: "length longMarkerClips = 2
      \<and> (\<forall>i<2. mclip_name (longMarkerClips ! i)
                     = markerClipBase 0 longMarker @ str ''_part'' @ showNat (i + 1)
            \<and> map cf_frameNumber (mclip_frames (longMarkerClips ! i))
                = [1 ..< length (mclip_frames (longMarkerClips ! i)) + 1]
            \<and> mclip_frames (longMarkerClips ! i) \<noteq> []
            \<and> (i < 2 - 1 \<longrightarrow> length (mclip_frames (longMarkerClips ! i)) = 101))
      \<and> concat (map (\<lambda>p. map cf_file (mclip_frames p)) longMarkerClips)
          = map (\<lambda>(j, t). \<lparr>file_name = padStart 5 48 (showNat (j + 1)) @ str ''.jpg'',
                             file_image = Some (video_frameAt exampleVideo t)\<rparr>)
              (enumerate 0 ?ts)"
    unfolding Let_def nth_Cons_0 n p0 example_marker_sizes
    using example_marker_sizes(4) by blast
  then have len: "length longMarkerClips = 2"
    and cat: "concat (map (\<lambda>p. map cf_file (mclip_frames p)) longMarkerClips)
          = map (\<lambda>(j, t). \<lparr>file_name = padStart 5 48 (showNat (j + 1)) @ str ''.jpg'',
                             file_image = Some (video_frameAt exampleVideo t)\<rparr>)
              (enumerate 0 ?ts)"
    by blast+
  from split have all: "i < 2 \<Longrightarrow>
            mclip_name (longMarkerClips ! i)
                     = markerClipBase 0 longMarker @ str ''_part'' @ showNat (i + 1)
            \<and> map cf_frameNumber (mclip_frames (longMarkerClips ! i))
                = [1 ..< length (mclip_frames (longMarkerClips ! i)) + 1]
            \<and> mclip_frames (longMarkerClips ! i) \<noteq> []
            \<and> (i < 2 - 1 \<longrightarrow> length (mclip_frames (longMarkerClips ! i)) = 101)" for i
    by blast
  have i0: "(0::nat) < 2" "(0::nat) < 2 - 1" and i1: "(1::nat) < 2"
    by simp_all
  from all[OF i0(1)] i0(2) have a0: "mclip_name (longMarkerClips ! 0)
                     = markerClipBase 0 longMarker @ str ''_part'' @ showNat (0 + 1)
            \<and> map cf_frameNumber (mclip_frames (longMarkerClips ! 0))
                = [1 ..< length (mclip_frames (longMarkerClips ! 0)) + 1]
            \<and> length (mclip_frames (longMarkerClips ! 0)) = 101"
    by blast
  from all[OF i1] have a1: "mclip_name (longMarkerClips ! 1)
                     = markerClipBase 0 longMarker @ str ''_part'' @ showNat (1 + 1)
            \<and> mclip_frames (longMarkerClips ! 1) \<noteq> []"
    by blast
  from a0 have n0: "mclip_name (longMarkerClips ! 0) = markerClipBase 0 longMarker @ str ''_part'' @ str ''1''"
    by (simp only: example_part_suffix)
  from a1 have n1: "mclip_name (longMarkerClips ! 1) = markerClipBase 0 longMarker @ str ''_part'' @ str ''2''"
    by (simp only: example_part_suffix)
  from a0 have l0: "length (mclip_frames (longMarkerClips ! 0)) = 101"
    by blast
  from a0 have "map cf_frameNumber (mclip_frames (longMarkerClips ! 0))
                = [1 ..< length (mclip_frames (longMarkerClips ! 0)) + 1]"
    by blast
  then have f0: "map cf_frameNumber (mclip_frames (longMarkerClips ! 0)) = [1..<101 + 1]"
    by (simp only: l0)
  from a1 have ne1: "mclip_frames (longMarkerClips ! 1) \<noteq> []"
    by blast
  from ex n len n0 n1 l0 f0 ne1 cat show ?thesis
    by (intro conjI)
qed

section \<open>Automatic clips of a video\<close>

text \<open>
  Claim C7.  For a video of 130 seconds, an interval of 1 second and 32 frames per clip,
  \<open>createClipsFromVideo\<close> computes \<open>totalFrames\<close> as 130 and makes 5 clips, each numbered
  from 1, but the last clip has 3 frames, not 2: the guard of the inner loop lets the time
  130, the duration itself, pass, so 131 frames are sampled.  For a video of 128 seconds the
  time 128 is not sampled, and there are 4 clips of 32 frames.
\<close>

theorem createClips_samples_the_end_time:
  "map_option (map (\<lambda>c. map cf_frameNumber (clip_frames c)))
       (createClipsFromVideo exampleVideo 130 1 32)
     = Some [[1..<33], [1..<33], [1..<33], [1..<33], [1, 2, 3]]
   \<and> map_option (map (\<lambda>c. length (clip_frames c))) (createClipsFromVideo exampleVideo 130 1 32)
     = Some [32, 32, 32, 32, 3]
   \<and> \<lfloor>(130 :: rat) / 1\<rfloor> = 130
   \<and> map (\<lambda>i. of_nat (4 * 32 + i) * (1 :: rat)) (sampledIndices 130 1 32 4) = [128, 129, 130]
   \<and> map_option (map (\<lambda>c. length (clip_frames c))) (createClipsFromVideo exampleVideo 128 1 32)
     = Some [32, 32, 32, 32]"
  by code_simp

end
